theory Spec2Isabelle
  imports Complex_Main
begin

section \<open>JavaScript values used by NumberPicker.js\<close>

text \<open>
  The props and arguments that reach the functions of \<^verbatim>\<open>NumberPicker.js\<close> are
  \<^verbatim>\<open>undefined\<close>, \<^verbatim>\<open>null\<close>, strings (\<^verbatim>\<open>clamp\<close> tests \<^verbatim>\<open>value === ''\<close>, and
  \<^verbatim>\<open>round\<close> hands a string to \<^verbatim>\<open>handleChange\<close>) and numbers.

  A number is an IEEE-754 binary64 value. The finite ones are represented by the rational
  they denote; every arithmetic result is rounded to the nearest binary64 value by
  \<open>to_double\<close>. The two zeros are identified: no operation used by this file
  (\<^verbatim>\<open>===\<close>, \<^verbatim>\<open>==\<close>, \<^verbatim>\<open>||\<close>, string conversion, \<^verbatim>\<open>toFixed\<close>) tells them apart.
\<close>

datatype jsnum = NaN | NegInf | Fin rat | PosInf

datatype jsval = Undefined | Null | Str string | Num jsnum

datatype error = RangeError

subsection \<open>Rounding a rational to binary64\<close>

text \<open>\<open>ndigits b n\<close> is the number of base-\<open>b\<close> digits of \<open>n > 0\<close>.\<close>

function ndigits :: "int \<Rightarrow> int \<Rightarrow> int" where
  "ndigits b n = (if n \<le> 0 \<or> b \<le> 1 then 0 else 1 + ndigits b (n div b))"
  by pat_completeness auto
termination
  by (relation "measure (\<lambda>(b, n). nat n)") (auto simp: int_div_less_self)

text \<open>\<open>ilog b a\<close> is the integer \<open>e\<close> with \<open>b ^ e \<le> a < b ^ (e + 1)\<close>, for \<open>a > 0\<close>.\<close>

definition ilog :: "int \<Rightarrow> rat \<Rightarrow> int" where
  "ilog b a =
     (let (p, q) = quotient_of a;
          e = ndigits b p - ndigits b q
      in if power_int (of_int b) e \<le> a then e else e - 1)"

definition round_half_even :: "rat \<Rightarrow> int" where
  "round_half_even q =
     (let f = \<lfloor>q\<rfloor>; d = q - of_int f
      in if d < 1 / 2 then f else if 1 / 2 < d then f + 1
         else if even f then f else f + 1)"

text \<open>
  Round to nearest, ties to even, with 53 significant bits: the result is \<open>n * 2 ^ (e - 52)\<close>
  for an integer \<open>n \<le> 2 ^ 53\<close>, with subnormals below \<open>2 ^ -1022\<close> and overflow to
  infinity when the rounded value reaches \<open>2 ^ 1024\<close>.
\<close>

definition to_double :: "rat \<Rightarrow> jsnum" where
  "to_double q =
     (if q = 0 then Fin 0
      else
        let e = max (ilog 2 \<bar>q\<bar>) (- 1022);
            u = power_int 2 (e - 52);
            n = round_half_even (\<bar>q\<bar> / u)
        in if 1023 < e \<or> (e = 1023 \<and> 2 ^ 53 \<le> n) then (if q < 0 then NegInf else PosInf)
           else Fin (if q < 0 then - (of_int n * u) else of_int n * u))"


subsection \<open>Truthiness and equality\<close>

fun truthy :: "jsval \<Rightarrow> bool" where
  "truthy Undefined = False"
| "truthy Null = False"
| "truthy (Str s) = (s \<noteq> [])"
| "truthy (Num NaN) = False"
| "truthy (Num (Fin q)) = (q \<noteq> 0)"
| "truthy (Num _) = True"

text \<open>\<^verbatim>\<open>a || b\<close>\<close>

definition js_or :: "jsval \<Rightarrow> jsval \<Rightarrow> jsval" where
  "js_or a b = (if truthy a then a else b)"

text \<open>\<^verbatim>\<open>v == null\<close>\<close>

fun is_nullish :: "jsval \<Rightarrow> bool" where
  "is_nullish Undefined = True"
| "is_nullish Null = True"
| "is_nullish _ = False"

text \<open>\<^verbatim>\<open>a === b\<close>: same type and same value; \<^verbatim>\<open>NaN\<close> is not equal to itself.\<close>

fun strict_eq :: "jsval \<Rightarrow> jsval \<Rightarrow> bool" where
  "strict_eq Undefined Undefined = True"
| "strict_eq Null Null = True"
| "strict_eq (Str s) (Str t) = (s = t)"
| "strict_eq (Num a) (Num b) = (a \<noteq> NaN \<and> a = b)"
| "strict_eq _ _ = False"

subsection \<open>Strings to numbers\<close>

definition is_digit :: "char \<Rightarrow> bool" where
  "is_digit c = (48 \<le> (of_char c :: int) \<and> (of_char c :: int) \<le> 57)"

definition digit_of :: "char \<Rightarrow> int" where
  "digit_of c = of_char c - 48"

definition digits_value :: "string \<Rightarrow> int" where
  "digits_value s = foldl (\<lambda>a c. 10 * a + digit_of c) 0 s"

text \<open>White space and line terminators among the code units below 256.\<close>

definition is_space :: "char \<Rightarrow> bool" where
  "is_space c = ((of_char c :: int) \<in> {9, 10, 11, 12, 13, 32, 160})"

definition trim :: "string \<Rightarrow> string" where
  "trim s = rev (dropWhile is_space (rev (dropWhile is_space s)))"

definition all_digits :: "string \<Rightarrow> int option" where
  "all_digits s =
     (if s \<noteq> [] \<and> list_all is_digit s then Some (digits_value s) else None)"

text \<open>SignedInteger of an ExponentPart.\<close>

definition parse_exponent :: "string \<Rightarrow> int option" where
  "parse_exponent s =
     (case s of
        [] \<Rightarrow> None
      | c # t \<Rightarrow>
          if c = CHR ''+'' then all_digits t
          else if c = CHR ''-'' then map_option uminus (all_digits t)
          else all_digits s)"

text \<open>
  StrUnsignedDecimalLiteral: \<^verbatim>\<open>Infinity\<close>, or digits with an optional fraction and an
  optional exponent, at least one digit before or after the point. The value is the
  mathematical value of the literal, rounded to binary64.
\<close>

definition parse_unsigned :: "string \<Rightarrow> jsnum option" where
  "parse_unsigned s =
     (if s = ''Infinity'' then Some PosInf
      else
        let ip = takeWhile is_digit s;
            r1 = dropWhile is_digit s;
            (fp, r2) =
              (case r1 of
                 [] \<Rightarrow> ([], [])
               | c # t \<Rightarrow>
                   if c = CHR ''.'' then (takeWhile is_digit t, dropWhile is_digit t)
                   else ([], r1));
            m = of_int (digits_value (ip @ fp))
        in if ip = [] \<and> fp = [] then None
           else
             (case r2 of
                [] \<Rightarrow> Some (to_double (m * power_int 10 (- int (length fp))))
              | c # t \<Rightarrow>
                  if c = CHR ''e'' \<or> c = CHR ''E'' then
                    (case parse_exponent t of
                       None \<Rightarrow> None
                     | Some x \<Rightarrow> Some (to_double (m * power_int 10 (x - int (length fp)))))
                  else None))"

fun num_neg :: "jsnum \<Rightarrow> jsnum" where
  "num_neg NaN = NaN"
| "num_neg NegInf = PosInf"
| "num_neg PosInf = NegInf"
| "num_neg (Fin q) = Fin (- q)"

text \<open>StrDecimalLiteral: an optional sign before the unsigned literal.\<close>

definition parse_decimal :: "string \<Rightarrow> jsnum option" where
  "parse_decimal s =
     (case s of
        [] \<Rightarrow> None
      | c # t \<Rightarrow>
          if c = CHR ''+'' then parse_unsigned t
          else if c = CHR ''-'' then map_option num_neg (parse_unsigned t)
          else parse_unsigned s)"

text \<open>NonDecimalIntegerLiteral: \<^verbatim>\<open>0x\<close>, \<^verbatim>\<open>0o\<close>, \<^verbatim>\<open>0b\<close> and their digits, unsigned.\<close>

definition radix_digit :: "char \<Rightarrow> int option" where
  "radix_digit c =
     (let n = (of_char c :: int)
      in if 48 \<le> n \<and> n \<le> 57 then Some (n - 48)
         else if 97 \<le> n \<and> n \<le> 102 then Some (n - 87)
         else if 65 \<le> n \<and> n \<le> 70 then Some (n - 55)
         else None)"

definition radix_value :: "int \<Rightarrow> string \<Rightarrow> int option" where
  "radix_value b s =
     (if s \<noteq> [] \<and> list_all (\<lambda>c. case radix_digit c of None \<Rightarrow> False | Some d \<Rightarrow> d < b) s
      then Some (foldl (\<lambda>a c. b * a + the (radix_digit c)) 0 s)
      else None)"

definition parse_non_decimal :: "string \<Rightarrow> jsnum option" where
  "parse_non_decimal s =
     (case s of
        z # x # t \<Rightarrow>
          if z \<noteq> CHR ''0'' then None
          else
            let b = (if x = CHR ''x'' \<or> x = CHR ''X'' then 16
                     else if x = CHR ''o'' \<or> x = CHR ''O'' then 8
                     else if x = CHR ''b'' \<or> x = CHR ''B'' then 2
                     else (0::int))
            in if b = 0 then None
               else map_option (\<lambda>n. to_double (of_int n)) (radix_value b t)
      | _ \<Rightarrow> None)"

text \<open>StringToNumber: the empty or blank string is 0, a string outside the grammar is NaN.\<close>

definition StringToNumber :: "string \<Rightarrow> jsnum" where
  "StringToNumber s =
     (let t = trim s
      in if t = [] then Fin 0
         else
           (case parse_non_decimal t of
              Some n \<Rightarrow> n
            | None \<Rightarrow> (case parse_decimal t of Some n \<Rightarrow> n | None \<Rightarrow> NaN)))"

fun ToNumber :: "jsval \<Rightarrow> jsnum" where
  "ToNumber Undefined = NaN"
| "ToNumber Null = Fin 0"
| "ToNumber (Str s) = StringToNumber s"
| "ToNumber (Num n) = n"

subsection \<open>Math.min and Math.max\<close>

fun num_less :: "jsnum \<Rightarrow> jsnum \<Rightarrow> bool" where
  "num_less NaN _ = False"
| "num_less _ NaN = False"
| "num_less _ NegInf = False"
| "num_less NegInf _ = True"
| "num_less PosInf _ = False"
| "num_less (Fin a) PosInf = True"
| "num_less (Fin a) (Fin b) = (a < b)"

definition Math_min :: "jsnum \<Rightarrow> jsnum \<Rightarrow> jsnum" where
  "Math_min a b = (if a = NaN \<or> b = NaN then NaN else if num_less b a then b else a)"

definition Math_max :: "jsnum \<Rightarrow> jsnum \<Rightarrow> jsnum" where
  "Math_max a b = (if a = NaN \<or> b = NaN then NaN else if num_less a b then b else a)"

subsection \<open>Numbers to strings\<close>

definition digit_char :: "int \<Rightarrow> char" where
  "digit_char d = char_of (48 + d)"

text \<open>The decimal digits of \<open>n \<ge> 0\<close>, most significant first.\<close>

function digits_of :: "int \<Rightarrow> string" where
  "digits_of n = (if n < 10 then [digit_char n] else digits_of (n div 10) @ [digit_char (n mod 10)])"
  by pat_completeness auto
termination
  by (relation "measure nat") (auto simp: int_div_less_self)

text \<open>
  Number::toString picks integers \<open>n\<close>, \<open>k\<close>, \<open>s\<close> with \<open>k \<ge> 1\<close>,
  \<open>10 ^ (k - 1) \<le> s < 10 ^ k\<close>, \<open>s * 10 ^ (n - k)\<close> rounding to \<open>x\<close>, and \<open>k\<close> as
  small as possible; among several \<open>s\<close> the one closest to \<open>x\<close>, the even one at a tie.
  \<open>candidates x k\<close> lists the pairs \<open>(s, n)\<close> for a given \<open>k\<close>: the integers next to
  \<open>x / 10 ^ (n - k)\<close>, for the decade of \<open>x\<close> and the one above it.
\<close>

definition candidates :: "rat \<Rightarrow> int \<Rightarrow> (int \<times> int) list" where
  "candidates x k =
     (let n0 = ilog 10 x + 1
      in concat (map (\<lambda>n.
           let f = \<lfloor>x / power_int 10 (n - k)\<rfloor>
           in filter (\<lambda>(s, n). 10 ^ nat (k - 1) \<le> s \<and> s < 10 ^ nat k
                                \<and> to_double (of_int s * power_int 10 (n - k)) = Fin x)
                [(f, n), (f + 1, n)]) [n0, n0 + 1]))"

definition distance :: "rat \<Rightarrow> int \<Rightarrow> int \<times> int \<Rightarrow> rat" where
  "distance x k c = \<bar>of_int (fst c) * power_int 10 (snd c - k) - x\<bar>"

fun closest :: "rat \<Rightarrow> int \<Rightarrow> int \<times> int \<Rightarrow> (int \<times> int) list \<Rightarrow> int \<times> int" where
  "closest x k c [] = c"
| "closest x k c (d # ds) =
     (if distance x k d < distance x k c \<or> (distance x k d = distance x k c \<and> even (fst d))
      then closest x k d ds else closest x k c ds)"

text \<open>
  The search runs through \<open>k = 1, \<dots>, 17\<close>; seventeen digits always identify a binary64
  value, so the last case is not reached for one.
\<close>

fun shortest :: "rat \<Rightarrow> int list \<Rightarrow> int \<times> int \<times> int" where
  "shortest x [] = (\<lfloor>x / power_int 10 (ilog 10 x - 16)\<rfloor>, ilog 10 x + 1, 17)"
| "shortest x (k # ks) =
     (case candidates x k of
        [] \<Rightarrow> shortest x ks
      | c # cs \<Rightarrow> (case closest x k c cs of (s, n) \<Rightarrow> (s, n, k)))"

text \<open>Number::toString for a finite \<open>x > 0\<close>: the four layouts of the digits.\<close>

definition positive_to_string :: "rat \<Rightarrow> string" where
  "positive_to_string x =
     (case shortest x [1, 2, 3, 4, 5, 6, 7, 8, 9, 10, 11, 12, 13, 14, 15, 16, 17] of
        (s, n, k) \<Rightarrow>
          let ds = digits_of s
          in if k \<le> n \<and> n \<le> 21 then ds @ replicate (nat (n - k)) CHR ''0''
             else if 0 < n \<and> n \<le> 21 then take (nat n) ds @ ''.'' @ drop (nat n) ds
             else if - 6 < n \<and> n \<le> 0 then ''0.'' @ replicate (nat (- n)) CHR ''0'' @ ds
             else
               let e = n - 1;
                   ex = (if e < 0 then ''-'' else ''+'') @ digits_of \<bar>e\<bar>
               in if k = 1 then ds @ ''e'' @ ex
                  else take 1 ds @ ''.'' @ drop 1 ds @ ''e'' @ ex)"

fun number_to_string :: "jsnum \<Rightarrow> string" where
  "number_to_string NaN = ''NaN''"
| "number_to_string PosInf = ''Infinity''"
| "number_to_string NegInf = ''-Infinity''"
| "number_to_string (Fin q) =
     (if q = 0 then ''0''
      else if q < 0 then ''-'' @ positive_to_string (- q)
      else positive_to_string q)"

fun ToString :: "jsval \<Rightarrow> string" where
  "ToString Undefined = ''undefined''"
| "ToString Null = ''null''"
| "ToString (Str s) = s"
| "ToString (Num n) = number_to_string n"

subsection \<open>Arithmetic\<close>

fun num_add :: "jsnum \<Rightarrow> jsnum \<Rightarrow> jsnum" where
  "num_add NaN _ = NaN"
| "num_add _ NaN = NaN"
| "num_add PosInf NegInf = NaN"
| "num_add NegInf PosInf = NaN"
| "num_add PosInf _ = PosInf"
| "num_add _ PosInf = PosInf"
| "num_add NegInf _ = NegInf"
| "num_add _ NegInf = NegInf"
| "num_add (Fin a) (Fin b) = to_double (a + b)"

text \<open>\<^verbatim>\<open>a - b\<close> on numbers\<close>

definition num_sub :: "jsnum \<Rightarrow> jsnum \<Rightarrow> jsnum" where
  "num_sub a b = num_add a (num_neg b)"

text \<open>\<^verbatim>\<open>a + b\<close>: concatenation as soon as one side is a string, addition otherwise.\<close>

fun is_string :: "jsval \<Rightarrow> bool" where
  "is_string (Str s) = True"
| "is_string _ = False"

definition js_add :: "jsval \<Rightarrow> jsval \<Rightarrow> jsval" where
  "js_add a b =
     (if is_string a \<or> is_string b then Str (ToString a @ ToString b)
      else Num (num_add (ToNumber a) (ToNumber b)))"

text \<open>\<^verbatim>\<open>Math.round\<close>: the nearest integer, a tie going towards \<open>+\<infinity>\<close>.\<close>

fun Math_round :: "jsnum \<Rightarrow> jsnum" where
  "Math_round (Fin q) = Fin (of_int \<lfloor>q + 1 / 2\<rfloor>)"
| "Math_round x = x"

subsection \<open>Number.prototype.toFixed\<close>

text \<open>ToIntegerOrInfinity\<close>

fun ToIntegerOrInfinity :: "jsnum \<Rightarrow> jsnum" where
  "ToIntegerOrInfinity NaN = Fin 0"
| "ToIntegerOrInfinity (Fin q) = Fin (of_int (if q < 0 then - \<lfloor>- q\<rfloor> else \<lfloor>q\<rfloor>))"
| "ToIntegerOrInfinity x = x"

text \<open>
  \<^verbatim>\<open>x.toFixed(fractionDigits)\<close>: a RangeError unless the digit count is within 0 to 100
  (the range of ECMAScript 2018 and later; engines before it stop at 20);
  otherwise the integer \<open>n\<close> closest to \<open>x * 10 ^ f\<close> (the larger one at a tie), written
  with \<open>f\<close> digits after the point.
\<close>

definition fixed_digits :: "rat \<Rightarrow> nat \<Rightarrow> string" where
  "fixed_digits x f =
     (let n = \<lfloor>x * 10 ^ f + 1 / 2\<rfloor>;
          m = (if n = 0 then ''0'' else digits_of n)
      in if f = 0 then m
         else
           let m1 = (if length m \<le> f then replicate (f + 1 - length m) CHR ''0'' @ m else m);
               k = length m1
           in take (k - f) m1 @ ''.'' @ drop (k - f) m1)"

definition toFixed :: "jsnum \<Rightarrow> jsval \<Rightarrow> error + string" where
  "toFixed x fractionDigits =
     (case ToIntegerOrInfinity (ToNumber fractionDigits) of
        Fin f \<Rightarrow>
          if f < 0 \<or> 100 < f then Inl RangeError
          else
            (case x of
               Fin q \<Rightarrow>
                 if 10 ^ 21 \<le> \<bar>q\<bar> then Inr (number_to_string x)
                 else Inr ((if q < 0 then ''-'' else []) @ fixed_digits \<bar>q\<bar> (nat \<lfloor>f\<rfloor>))
             | _ \<Rightarrow> Inr (number_to_string x))
      | _ \<Rightarrow> Inl RangeError)"

section \<open>clamp\<close>

text \<open>
  \<^verbatim>\<open>
  function clamp(value, min, max) {
    max = max == null ? Infinity : max
    min = min == null ? -Infinity : min
    if (value == null || value === '') return null
    return Math.max(Math.min(value, max), min)
  }
  \<close>
\<close>

definition clamp :: "jsval \<Rightarrow> jsval \<Rightarrow> jsval \<Rightarrow> jsval" where
  "clamp value mn mx =
     (let max1 = (if is_nullish mx then Num PosInf else mx);
          min1 = (if is_nullish mn then Num NegInf else mn)
      in if is_nullish value \<or> strict_eq value (Str []) then Null
         else Num (Math_max (Math_min (ToNumber value) (ToNumber max1)) (ToNumber min1)))"

section \<open>round\<close>

text \<open>\<^verbatim>\<open>s.split(c)\<close> for a one-character separator: the pieces between its occurrences.\<close>

fun split_on :: "char \<Rightarrow> string \<Rightarrow> string list" where
  "split_on c [] = [[]]"
| "split_on c (x # xs) =
     (if x = c then [] # split_on c xs
      else (case split_on c xs of [] \<Rightarrow> [[x]] | p # ps \<Rightarrow> (x # p) # ps))"

text \<open>\<^verbatim>\<open>parts[i]\<close>: \<^verbatim>\<open>undefined\<close> past the end of the array.\<close>

definition index :: "string list \<Rightarrow> nat \<Rightarrow> jsval" where
  "index parts i = (if i < length parts then Str (parts ! i) else Undefined)"

text \<open>
  \<^verbatim>\<open>
  function round(value, precision) {
    precision = precision || 0
    value = ('' + value).split('e')
    value = Math.round(
      +(value[0] + 'e' + (value[1] ? +value[1] + precision : precision))
    )
    value = ('' + value).split('e')
    value = +(value[0] + 'e' + (value[1] ? +value[1] - precision : -precision))
    return value.toFixed(precision)
  }
  \<close>
  The result is a string, or the RangeError of \<^verbatim>\<open>toFixed\<close>.
\<close>

definition round_js :: "jsval \<Rightarrow> jsval \<Rightarrow> error + string" where
  "round_js value0 precision0 =
     (let precision = js_or precision0 (Num (Fin 0));
          value1 = split_on CHR ''e'' (ToString (js_add (Str []) value0));
          value2 = Math_round (ToNumber
                     (js_add (js_add (index value1 0) (Str ''e''))
                        (if truthy (index value1 1)
                         then js_add (Num (ToNumber (index value1 1))) precision
                         else precision)));
          value3 = split_on CHR ''e'' (ToString (js_add (Str []) (Num value2)));
          value4 = ToNumber
                     (js_add (js_add (index value3 0) (Str ''e''))
                        (if truthy (index value3 1)
                         then Num (num_sub (ToNumber (index value3 1)) (ToNumber precision))
                         else Num (num_neg (ToNumber precision))))
      in toFixed value4 precision)"

section \<open>The host's timers and createInterval\<close>

text \<open>
  \<^verbatim>\<open>setTimeout\<close> and \<^verbatim>\<open>clearTimeout\<close> belong to the host. They are modelled by a
  clock in milliseconds and the list of pending timers, each with its id, the time it is
  due and the interval whose \<^verbatim>\<open>fn\<close> it runs (the only function this file ever passes
  to \<^verbatim>\<open>setTimeout\<close>). The event loop (\<open>tick\<close>) takes the pending timer that is due
  first, moves the clock to that time when it is not there yet, and runs it: an idle host
  that fires every timer exactly when it is due.

  Every call of \<^verbatim>\<open>createInterval\<close> makes a closure with its own variable \<^verbatim>\<open>id\<close>;
  the closures are numbered, \<open>id_var w k\<close> is the variable of the \<open>k\<close>-th one and
  \<open>callback_of w k\<close> the callback it was created with. The function \<^verbatim>\<open>cancel\<close> it
  returns is represented by \<open>k\<close>. \<open>fired\<close> records the time and the interval of every
  call of a callback; it is only observed, never read by the program.
\<close>

record ('cb, 'u) host =
  now :: nat
  next_id :: nat
  queue :: "(nat \<times> nat \<times> nat) list"
  intervals :: nat
  id_var :: "nat \<Rightarrow> nat"
  callback_of :: "nat \<Rightarrow> 'cb"
  fired :: "(nat \<times> nat) list"
  user :: 'u

definition setTimeout :: "nat \<Rightarrow> nat \<Rightarrow> ('cb, 'u) host \<Rightarrow> nat \<times> ('cb, 'u) host" where
  "setTimeout k delay w =
     (next_id w, w\<lparr>next_id := Suc (next_id w), queue := queue w @ [(next_id w, now w + delay, k)]\<rparr>)"

definition clearTimeout :: "nat \<Rightarrow> ('cb, 'u) host \<Rightarrow> ('cb, 'u) host" where
  "clearTimeout i w = w\<lparr>queue := filter (\<lambda>t. fst t \<noteq> i) (queue w)\<rparr>"

text \<open>
  \<^verbatim>\<open>
  function createInterval(callback) {
    let fn
    var id, cancel = () => clearTimeout(id)
    id = setTimeout(
      (fn = () => {
        id = setTimeout(fn, 35)
        callback() //fire after everything in case the user cancels on the first call
      }),
      500
    )
    return cancel
  }
  \<close>
\<close>

definition cancel :: "nat \<Rightarrow> ('cb, 'u) host \<Rightarrow> ('cb, 'u) host" where
  "cancel k w = clearTimeout (id_var w k) w"

definition fn :: "('cb \<Rightarrow> ('cb, 'u) host \<Rightarrow> ('cb, 'u) host) \<Rightarrow> nat \<Rightarrow> ('cb, 'u) host \<Rightarrow> ('cb, 'u) host" where
  "fn run k w =
     (case setTimeout k 35 w of
        (i, w1) \<Rightarrow>
          let w2 = w1\<lparr>id_var := (id_var w1)(k := i)\<rparr>
          in run (callback_of w2 k) (w2\<lparr>fired := fired w2 @ [(now w2, k)]\<rparr>))"

definition createInterval :: "'cb \<Rightarrow> ('cb, 'u) host \<Rightarrow> nat \<times> ('cb, 'u) host" where
  "createInterval callback w =
     (let k = intervals w;
          w0 = w\<lparr>intervals := Suc k, callback_of := (callback_of w)(k := callback)\<rparr>
      in case setTimeout k 500 w0 of
           (i, w1) \<Rightarrow> (k, w1\<lparr>id_var := (id_var w1)(k := i)\<rparr>))"

text \<open>The pending timer that is due first, the one set earlier among equals.\<close>

fun earliest :: "(nat \<times> nat \<times> nat) list \<Rightarrow> (nat \<times> nat \<times> nat) option" where
  "earliest [] = None"
| "earliest (t # ts) =
     (case earliest ts of
        None \<Rightarrow> Some t
      | Some u \<Rightarrow> if fst (snd u) < fst (snd t) then Some u else Some t)"

definition tick :: "('cb \<Rightarrow> ('cb, 'u) host \<Rightarrow> ('cb, 'u) host) \<Rightarrow> ('cb, 'u) host \<Rightarrow> ('cb, 'u) host" where
  "tick run w =
     (case earliest (queue w) of
        None \<Rightarrow> w
      | Some (i, due, k) \<Rightarrow> fn run k (clearTimeout i (w\<lparr>now := max (now w) due\<rparr>)))"

section \<open>The component\<close>

text \<open>
  The props that the handlers read. \<open>localizer_precision\<close> stands for the value of
  \<^verbatim>\<open>numberLocalizer.precision(format(this.props))\<close> and \<open>editable\<close> for the decision of the
  \<^verbatim>\<open>@widgetEditable\<close> decorator (the body of a decorated handler runs only for a widget
  that is neither disabled nor read-only); both come from modules outside this file.
\<close>

record props =
  prop_value :: jsval
  prop_min :: jsval
  prop_max :: jsval
  prop_step :: jsval
  prop_precision :: jsval
  localizer_precision :: jsval
  editable :: bool

text \<open>
  The arguments of one call \<^verbatim>\<open>notify(onChange, [nextValue, { rawValue, lastValue, originalEvent }])\<close>,
  without the event, which is passed through untouched. \<^verbatim>\<open>notify\<close> (from
  \<^verbatim>\<open>util/widgetHelpers\<close>) is the call of the handler; the component records each one.
\<close>

record notification =
  nextValue :: jsval
  rawValue :: jsval
  lastValue :: jsval

datatype direction = UP | DOWN

record component =
  props :: props
  cancelRepeater :: "nat option"
  notified :: "notification list"

type_synonym world = "(direction, component) host"

text \<open>
  \<^verbatim>\<open>
  handleChange = (rawValue, originalEvent = null) => {
    let { onChange, value: lastValue, min, max } = this.props
    let nextValue = clamp(rawValue, min, max)
    if (lastValue !== nextValue)
      notify(onChange, [nextValue, { rawValue, lastValue, originalEvent }])
  }
  \<close>
\<close>

definition handleChange :: "jsval \<Rightarrow> world \<Rightarrow> world" where
  "handleChange raw w =
     (let p = props (user w);
          next = clamp raw (prop_min p) (prop_max p)
      in if \<not> strict_eq (prop_value p) next
         then w\<lparr>user := (user w)\<lparr>notified := notified (user w) @
                [\<lparr>nextValue = next, rawValue = raw, lastValue = prop_value p\<rparr>]\<rparr>\<rparr>
         else w)"

text \<open>
  \<^verbatim>\<open>
  step(amount, event) {
    var value = (this.props.value || 0) + amount
    var decimals = this.props.precision != null
      ? this.props.precision
      : numberLocalizer.precision(format(this.props))
    this.handleChange(decimals != null ? round(value, decimals) : value, event)
    return value
  }
  \<close>
\<close>

definition step :: "jsval \<Rightarrow> world \<Rightarrow> error + jsval \<times> world" where
  "step amount w =
     (let p = props (user w);
          v = js_add (js_or (prop_value p) (Num (Fin 0))) amount;
          decimals = (if \<not> is_nullish (prop_precision p) then prop_precision p
                      else localizer_precision p)
      in if \<not> is_nullish decimals then
           (case round_js v decimals of
              Inl e \<Rightarrow> Inl e
            | Inr s \<Rightarrow> Inr (v, handleChange (Str s) w))
         else Inr (v, handleChange v w))"

text \<open>\<^verbatim>\<open>increment(event) { return this.step(this.props.step, event) }\<close>\<close>

definition increment :: "world \<Rightarrow> error + jsval \<times> world" where
  "increment w = step (prop_step (props (user w))) w"

text \<open>\<^verbatim>\<open>decrement(event) { return this.step(-this.props.step, event) }\<close>\<close>

definition decrement :: "world \<Rightarrow> error + jsval \<times> world" where
  "decrement w = step (Num (num_neg (ToNumber (prop_step (props (user w)))))) w"

text \<open>
  \<^verbatim>\<open>
  @widgetEditable handleMouseUp = () => {
    this._cancelRepeater && this._cancelRepeater()
    this._cancelRepeater = null
  }
  \<close>
\<close>

definition handleMouseUp :: "world \<Rightarrow> world" where
  "handleMouseUp w =
     (if \<not> editable (props (user w)) then w
      else
        let w1 = (case cancelRepeater (user w) of None \<Rightarrow> w | Some k \<Rightarrow> cancel k w)
        in w1\<lparr>user := (user w1)\<lparr>cancelRepeater := None\<rparr>\<rparr>)"

text \<open>
  \<^verbatim>\<open>
  @widgetEditable handleMouseDown = (direction, event) => {
    let { min, max } = this.props
    event && event.persist()
    let method = direction === directions.UP ? this.increment : this.decrement
    let value = method.call(this, event),
      atTop = direction === directions.UP && value === max,
      atBottom = direction === directions.DOWN && value === min
    if (atTop || atBottom) this.handleMouseUp()
    else if (!this._cancelRepeater) {
      this._cancelRepeater = createInterval(() => {
        this.handleMouseDown(direction, event)
      })
    }
  }
  \<close>
  The callback given to \<^verbatim>\<open>createInterval\<close> is represented by its direction.
  \<^verbatim>\<open>event.persist()\<close> only keeps the synthetic event alive for the later calls and has
  no part in the state modelled here.
\<close>

definition handleMouseDown :: "direction \<Rightarrow> world \<Rightarrow> error + world" where
  "handleMouseDown d w =
     (if \<not> editable (props (user w)) then Inr w
      else
        let p = props (user w)
        in case (if d = UP then increment w else decrement w) of
             Inl e \<Rightarrow> Inl e
           | Inr (v, w1) \<Rightarrow>
               let atTop = (d = UP \<and> strict_eq v (prop_max p));
                   atBottom = (d = DOWN \<and> strict_eq v (prop_min p))
               in if atTop \<or> atBottom then Inr (handleMouseUp w1)
                  else if cancelRepeater (user w1) = None then
                    (case createInterval d w1 of
                       (k, w2) \<Rightarrow> Inr (w2\<lparr>user := (user w2)\<lparr>cancelRepeater := Some k\<rparr>\<rparr>))
                  else Inr w1)"

text \<open>
  A handler that throws leaves the world as it was when it threw: \<^verbatim>\<open>step\<close> can only
  throw inside \<^verbatim>\<open>round\<close>, before anything has been changed.
\<close>

definition repeat :: "direction \<Rightarrow> world \<Rightarrow> world" where
  "repeat d w = (case handleMouseDown d w of Inl e \<Rightarrow> w | Inr w1 \<Rightarrow> w1)"

text \<open>
  What can happen to a mounted component: the buttons' mouse events (\<^verbatim>\<open>onMouseUp\<close> and
  \<^verbatim>\<open>onMouseLeave\<close> both call \<^verbatim>\<open>handleMouseUp\<close>), a timer firing, time passing, and the
  parent rendering it with new props.
\<close>

datatype event = MouseDown direction | MouseUp | Tick | Elapse nat | SetProps props

fun apply_event :: "event \<Rightarrow> world \<Rightarrow> world" where
  "apply_event (MouseDown d) w = repeat d w"
| "apply_event MouseUp w = handleMouseUp w"
| "apply_event Tick w = tick repeat w"
| "apply_event (Elapse t) w = w\<lparr>now := now w + t\<rparr>"
| "apply_event (SetProps p) w = w\<lparr>user := (user w)\<lparr>props := p\<rparr>\<rparr>"

definition run_events :: "event list \<Rightarrow> world \<Rightarrow> world" where
  "run_events es w = foldl (\<lambda>w e. apply_event e w) w es"

text \<open>A freshly constructed component: no timer, \<^verbatim>\<open>_cancelRepeater\<close> not set.\<close>

definition mount :: "props \<Rightarrow> world" where
  "mount p =
     \<lparr>now = 0, next_id = 1, queue = [], intervals = 0, id_var = (\<lambda>k. 0),
      callback_of = (\<lambda>k. UP), fired = [],
      user = \<lparr>props = p, cancelRepeater = None, notified = []\<rparr>\<rparr>"

section \<open>The specification's vocabulary\<close>

text \<open>
  The definitions of this section follow the words of the specification, to be compared
  with the functions above.
\<close>

text \<open>\<^verbatim>\<open>a == b\<close> on the values above, for the specification's \<^verbatim>\<open>clamp(v, ...) == v\<close>.\<close>

fun loose_eq :: "jsval \<Rightarrow> jsval \<Rightarrow> bool" where
  "loose_eq (Num a) (Str s) = (a \<noteq> NaN \<and> a = StringToNumber s)"
| "loose_eq (Str s) (Num b) = (b \<noteq> NaN \<and> StringToNumber s = b)"
| "loose_eq (Num a) (Num b) = (a \<noteq> NaN \<and> a = b)"
| "loose_eq (Str s) (Str t) = (s = t)"
| "loose_eq a b = (is_nullish a \<and> is_nullish b)"

text \<open>``a null/undefined max is treated as +Infinity and a null/undefined min as -Infinity''\<close>

definition effective_max :: "jsval \<Rightarrow> jsnum" where
  "effective_max mx = (if mx = Null \<or> mx = Undefined then PosInf else ToNumber mx)"

definition effective_min :: "jsval \<Rightarrow> jsnum" where
  "effective_min mn = (if mn = Null \<or> mn = Undefined then NegInf else ToNumber mn)"

text \<open>``the value argument is absent (null/undefined) or the empty string''\<close>

definition absent_or_empty :: "jsval \<Rightarrow> bool" where
  "absent_or_empty v = (v = Null \<or> v = Undefined \<or> v = Str [])"

text \<open>``nextValue = (currentValue defaulting to 0 when absent) + amount''\<close>

definition nextValue_spec :: "jsval \<Rightarrow> jsval \<Rightarrow> jsval" where
  "nextValue_spec currentValue amount =
     js_add (if currentValue = Null \<or> currentValue = Undefined then Num (Fin 0) else currentValue)
       amount"

text \<open>The precision that \<^verbatim>\<open>step\<close> finds: the prop, or else the localizer's.\<close>

definition decimals_of :: "props \<Rightarrow> jsval" where
  "decimals_of p =
     (if \<not> is_nullish (prop_precision p) then prop_precision p else localizer_precision p)"

text \<open>The digit counts that \<^verbatim>\<open>toFixed\<close> accepts at the end of \<^verbatim>\<open>round\<close>: 0 to 100.\<close>

definition fraction_digits_ok :: "jsval \<Rightarrow> bool" where
  "fraction_digits_ok precision =
     (case ToIntegerOrInfinity (ToNumber (js_or precision (Num (Fin 0)))) of
        Fin f \<Rightarrow> 0 \<le> f \<and> f \<le> 100
      | _ \<Rightarrow> False)"

text \<open>Props with the defaults of \<^verbatim>\<open>defaultProps\<close>, for an editable widget and no precision.\<close>

definition defaultProps :: props where
  "defaultProps =
     \<lparr>prop_value = Null, prop_min = Num NegInf, prop_max = Num PosInf, prop_step = Num (Fin 1),
      prop_precision = Undefined, localizer_precision = Null, editable = True\<rparr>"






text \<open>
  A callback that leaves the host's timers and the closures alone: whatever it does, it
  does to its own state.
\<close>

definition quiet :: "('cb \<Rightarrow> ('cb, 'u) host \<Rightarrow> ('cb, 'u) host) \<Rightarrow> bool" where
  "quiet run = (\<forall>c w. \<exists>u. run c w = w\<lparr>user := u\<rparr>)"

text \<open>
  Two callbacks for the scenarios of the specification: one that does nothing, and one that
  calls the cancel handle of an interval (its own, in ``a callback that cancels during its
  own first invocation'').
\<close>

datatype callback = Idle | CancelHandle nat

fun run_callback :: "callback \<Rightarrow> (callback, unit) host \<Rightarrow> (callback, unit) host" where
  "run_callback Idle w = w"
| "run_callback (CancelHandle k) w = cancel k w"

text \<open>\<open>ticks run n\<close>: the event loop fires \<open>n\<close> timers in a row.\<close>

fun ticks :: "('cb \<Rightarrow> ('cb, 'u) host \<Rightarrow> ('cb, 'u) host) \<Rightarrow> nat \<Rightarrow> ('cb, 'u) host \<Rightarrow> ('cb, 'u) host" where
  "ticks run 0 w = w"
| "ticks run (Suc n) w = ticks run n (tick run w)"

text \<open>The calls of the callback of interval \<open>k\<close>, and its pending timers.\<close>

definition calls_of :: "nat \<Rightarrow> ('cb, 'u) host \<Rightarrow> (nat \<times> nat) list" where
  "calls_of k w = filter (\<lambda>c. snd c = k) (fired w)"

definition pending :: "nat \<Rightarrow> ('cb, 'u) host \<Rightarrow> (nat \<times> nat \<times> nat) list" where
  "pending k w = filter (\<lambda>t. snd (snd t) = k) (queue w)"

text \<open>The variable \<^verbatim>\<open>id\<close> of interval \<open>k\<close> names the pending timers of \<open>k\<close> and no other.\<close>

definition owns :: "nat \<Rightarrow> ('cb, 'u) host \<Rightarrow> bool" where
  "owns k w = list_all (\<lambda>t. (fst t = id_var w k) = (snd (snd t) = k)) (queue w)"

text \<open>An empty host: no timer, no interval, the clock at \<open>t\<close>.\<close>

definition idle_host :: "nat \<Rightarrow> (callback, unit) host" where
  "idle_host t =
     \<lparr>now = t, next_id = 1, queue = [], intervals = 0, id_var = (\<lambda>k. 0),
      callback_of = (\<lambda>k. Idle), fired = [], user = ()\<rparr>"

text \<open>
  ``At most one repeat timer is active per component'': with no cancel handle stored there
  is no pending timer, and with the handle of interval \<open>k\<close> stored there is exactly one,
  which belongs to \<open>k\<close> and is the one that the variable \<^verbatim>\<open>id\<close> of \<open>k\<close> names.
\<close>

definition single_timer :: "world \<Rightarrow> bool" where
  "single_timer w =
     (case cancelRepeater (user w) of
        None \<Rightarrow> queue w = []
      | Some k \<Rightarrow> (case queue w of [t] \<Rightarrow> fst t = id_var w k \<and> snd (snd t) = k | _ \<Rightarrow> False))"




text \<open>A component whose up button is being held: one press on a fresh default component.\<close>

definition held :: world where
  "held = repeat UP (mount defaultProps)"

section \<open>Properties of clamp\<close>

lemma is_nullish_iff: "is_nullish v \<longleftrightarrow> v = Null \<or> v = Undefined"
  by (cases v) auto

lemma Math_min_Fin: "Math_min (Fin a) (Fin b) = Fin (min a b)"
  by (auto simp: Math_min_def min_def)

lemma Math_max_Fin: "Math_max (Fin a) (Fin b) = Fin (max a b)"
  by (auto simp: Math_max_def max_def)

lemma Math_min_PosInf: "Math_min v PosInf = v"
  by (cases v) (auto simp: Math_min_def)

lemma Math_max_NegInf: "Math_max v NegInf = v"
  by (cases v) (auto simp: Math_max_def)

lemma Math_min_NaN: "Math_min NaN b = NaN"
  by (simp add: Math_min_def)

lemma Math_max_NaN: "Math_max NaN b = NaN"
  by (simp add: Math_max_def)

lemma clamp_Num:
  "clamp (Num v) mn mx = Num (Math_max (Math_min v (effective_max mx)) (effective_min mn))"
  by (simp add: clamp_def effective_max_def effective_min_def is_nullish_iff)

lemma clamp_absent: "absent_or_empty u \<Longrightarrow> clamp u mn mx = Null"
  by (auto simp: clamp_def absent_or_empty_def)

lemma clamp_NaN: "clamp (Num NaN) mn mx = Num NaN"
  by (simp add: clamp_Num Math_min_NaN Math_max_NaN)

text \<open>
  \<^bold>\<open>C1.\<close> For every number \<open>v\<close>, \<^verbatim>\<open>clamp(v, min, max)\<close> is
  \<^verbatim>\<open>max(min(v, effectiveMax), effectiveMin)\<close>, where an absent \<^verbatim>\<open>max\<close> counts as
  \<open>+\<infinity>\<close> and an absent \<^verbatim>\<open>min\<close> as \<open>-\<infinity>\<close>; on finite arguments these are the
  maximum and minimum of the order of the numbers. For every \<^verbatim>\<open>min\<close> and \<^verbatim>\<open>max\<close>, an
  absent or empty value gives \<^verbatim>\<open>null\<close>, which is not the number zero.
\<close>

theorem clamp_spec:
  "clamp (Num v) mn mx = Num (Math_max (Math_min v (effective_max mx)) (effective_min mn))
   \<and> clamp (Num (Fin a)) (Num (Fin lo)) (Num (Fin hi)) = Num (Fin (max (min a hi) lo))
   \<and> (absent_or_empty u \<longrightarrow> clamp u mn mx = Null \<and> clamp u mn mx \<noteq> Num (Fin 0))"
proof -
  have "clamp (Num (Fin a)) (Num (Fin lo)) (Num (Fin hi)) = Num (Fin (max (min a hi) lo))"
    by (simp add: clamp_Num effective_max_def effective_min_def Math_min_Fin Math_max_Fin)
  then show ?thesis
    using clamp_Num [of v mn mx] clamp_absent [of u mn mx] by simp
qed

theorem clamp_spec_witness:
  "absent_or_empty (Str []) \<and> clamp (Str []) (Num (Fin 0)) (Num (Fin 10)) = Null
   \<and> clamp (Num (Fin 15)) (Num (Fin 0)) (Num (Fin 10)) = Num (Fin 10)
   \<and> clamp (Num (Fin 15)) Null Undefined = Num (Fin 15)"
  using clamp_spec [of "Fin 15" "Num (Fin 0)" "Num (Fin 10)" 15 0 10 "Str []"]
    clamp_spec [of "Fin 15" Null Undefined 15 0 10 "Str []"]
  by (simp add: absent_or_empty_def effective_max_def effective_min_def Math_min_def Math_max_def)

text \<open>
  \<^bold>\<open>C8\<close> as stated fails at the empty string: \<^verbatim>\<open>clamp('', -Infinity, Infinity)\<close> is
  \<^verbatim>\<open>null\<close>, and \<^verbatim>\<open>null == ''\<close> is false.
\<close>

theorem clamp_identity_counterexample:
  "\<not> loose_eq (clamp (Str []) (Num NegInf) (Num PosInf)) (Str [])"
  by (simp add: clamp_def)

text \<open>
  \<^bold>\<open>C8\<close>, amended. With both bounds infinite \<^verbatim>\<open>clamp\<close> returns every number as it is,
  so that \<^verbatim>\<open>clamp(v, -Infinity, Infinity) === v\<close> for every \<open>v\<close> but \<^verbatim>\<open>NaN\<close>, which is
  equal to nothing; \<^verbatim>\<open>null\<close> and \<^verbatim>\<open>undefined\<close> give \<^verbatim>\<open>null\<close>, which is \<^verbatim>\<open>==\<close> to both;
  the empty string gives \<^verbatim>\<open>null\<close> too.
\<close>

theorem clamp_infinite_bounds:
  "clamp (Num v) (Num NegInf) (Num PosInf) = Num v
   \<and> (v \<noteq> NaN \<longrightarrow> strict_eq (clamp (Num v) (Num NegInf) (Num PosInf)) (Num v))
   \<and> (is_nullish u \<longrightarrow> clamp u (Num NegInf) (Num PosInf) = Null
                        \<and> loose_eq (clamp u (Num NegInf) (Num PosInf)) u)
   \<and> clamp (Str []) (Num NegInf) (Num PosInf) = Null"
proof -
  have num: "clamp (Num v) (Num NegInf) (Num PosInf) = Num v"
    by (simp add: clamp_Num effective_max_def effective_min_def Math_min_PosInf Math_max_NegInf)
  have absent: "is_nullish u \<longrightarrow> clamp u (Num NegInf) (Num PosInf) = Null
                  \<and> loose_eq (clamp u (Num NegInf) (Num PosInf)) u"
    by (cases u) (simp_all add: clamp_def)
  have "clamp (Str []) (Num NegInf) (Num PosInf) = Null"
    by (simp add: clamp_def)
  with num absent show ?thesis by simp
qed

theorem clamp_infinite_bounds_witness:
  "Fin 7 \<noteq> NaN \<and> strict_eq (clamp (Num (Fin 7)) (Num NegInf) (Num PosInf)) (Num (Fin 7))
   \<and> is_nullish Undefined \<and> clamp Undefined (Num NegInf) (Num PosInf) = Null
   \<and> loose_eq (clamp Undefined (Num NegInf) (Num PosInf)) Undefined"
  using clamp_infinite_bounds [of "Fin 7" Undefined] by simp

section \<open>Properties of handleChange and step\<close>

text \<open>
  \<^bold>\<open>C9.\<close> \<^verbatim>\<open>handleChange\<close> calls \<^verbatim>\<open>onChange\<close> if and only if the clamped value differs
  from the \<^verbatim>\<open>value\<close> prop, in the sense of \<^verbatim>\<open>!==\<close>: when they are equal nothing happens at
  all, and when they differ there is exactly one more call, with the clamped value.
\<close>

theorem handleChange_notifies:
  "(strict_eq (prop_value (props (user w)))
       (clamp raw (prop_min (props (user w))) (prop_max (props (user w))))
     \<longrightarrow> handleChange raw w = w)
   \<and> (\<not> strict_eq (prop_value (props (user w)))
       (clamp raw (prop_min (props (user w))) (prop_max (props (user w))))
     \<longrightarrow> notified (user (handleChange raw w)) =
           notified (user w) @
             [\<lparr>nextValue = clamp raw (prop_min (props (user w))) (prop_max (props (user w))),
               rawValue = raw, lastValue = prop_value (props (user w))\<rparr>]
         \<and> length (notified (user (handleChange raw w))) = Suc (length (notified (user w))))"
  by (simp add: handleChange_def Let_def)

theorem handleChange_notifies_witness:
  "handleChange (Num (Fin 12)) (mount (defaultProps\<lparr>prop_value := Num (Fin 10), prop_max := Num (Fin 10)\<rparr>))
     = mount (defaultProps\<lparr>prop_value := Num (Fin 10), prop_max := Num (Fin 10)\<rparr>)
   \<and> notified (user (handleChange (Num (Fin 7)) (mount (defaultProps\<lparr>prop_value := Num (Fin 5)\<rparr>))))
     = [\<lparr>nextValue = Num (Fin 7), rawValue = Num (Fin 7), lastValue = Num (Fin 5)\<rparr>]"
  using
    handleChange_notifies [of "mount (defaultProps\<lparr>prop_value := Num (Fin 10), prop_max := Num (Fin 10)\<rparr>)"
      "Num (Fin 12)"]
    handleChange_notifies [of "mount (defaultProps\<lparr>prop_value := Num (Fin 5)\<rparr>)" "Num (Fin 7)"]
  by (simp add: mount_def defaultProps_def clamp_def Math_min_def Math_max_def)

lemma js_or_default:
  "v \<noteq> Num NaN \<Longrightarrow> v \<noteq> Str [] \<Longrightarrow>
   js_add (js_or v (Num (Fin 0))) amount = nextValue_spec v amount"
  by (cases v rule: truthy.cases) (auto simp: js_or_def nextValue_spec_def)

lemma step_value:
  "step amount w = Inr r \<Longrightarrow>
   fst r = js_add (js_or (prop_value (props (user w))) (Num (Fin 0))) amount"
  by (auto simp: step_def Let_def split: if_splits sum.splits)

lemma step_no_precision:
  "is_nullish (decimals_of (props (user w))) \<Longrightarrow>
   step amount w =
     Inr (js_add (js_or (prop_value (props (user w))) (Num (Fin 0))) amount,
          handleChange (js_add (js_or (prop_value (props (user w))) (Num (Fin 0))) amount) w)"
  by (auto simp: step_def Let_def decimals_of_def split: if_splits)

lemma step_precision:
  "\<not> is_nullish (decimals_of (props (user w))) \<Longrightarrow>
   step amount w =
     (case round_js (js_add (js_or (prop_value (props (user w))) (Num (Fin 0))) amount)
             (decimals_of (props (user w))) of
        Inl e \<Rightarrow> Inl e
      | Inr s \<Rightarrow> Inr (js_add (js_or (prop_value (props (user w))) (Num (Fin 0))) amount,
                      handleChange (Str s) w))"
  by (auto simp: step_def Let_def decimals_of_def split: if_splits)

lemma to_double_1: "to_double 1 = Fin 1"
  by code_simp

lemma to_double_2: "to_double 2 = Fin 2"
  by code_simp

lemma to_double_4: "to_double 4 = Fin 4"
  by code_simp

lemma to_double_6: "to_double 6 = Fin 6"
  by code_simp

text \<open>
  \<^bold>\<open>C4\<close> as stated fails when the current value is \<^verbatim>\<open>NaN\<close>: \<^verbatim>\<open>NaN || 0\<close> is 0, so
  \<^verbatim>\<open>step\<close> returns the amount, where \<^verbatim>\<open>NaN + amount\<close> is \<^verbatim>\<open>NaN\<close>.
\<close>

theorem step_sum_counterexample:
  "step (Num (Fin 1)) (mount (defaultProps\<lparr>prop_value := Num NaN\<rparr>)) =
     Inr (Num (Fin 1), handleChange (Num (Fin 1)) (mount (defaultProps\<lparr>prop_value := Num NaN\<rparr>)))
   \<and> nextValue_spec (Num NaN) (Num (Fin 1)) = Num NaN"
proof -
  have "is_nullish (decimals_of (props (user (mount (defaultProps\<lparr>prop_value := Num NaN\<rparr>)))))"
    by (simp add: mount_def defaultProps_def decimals_of_def)
  from step_no_precision [OF this, of "Num (Fin 1)"] show ?thesis
    by (simp add: mount_def defaultProps_def js_or_def js_add_def nextValue_spec_def to_double_1)
qed

text \<open>
  \<^bold>\<open>C4\<close>, amended. \<^verbatim>\<open>step\<close> computes \<^verbatim>\<open>(currentValue || 0) + amount\<close>: the current value
  counts as 0 when it is absent or falsy (\<^verbatim>\<open>NaN\<close>, 0, the empty string), which for every
  current value but \<^verbatim>\<open>NaN\<close> and \<^verbatim>\<open>''\<close> is the current value defaulting to 0 when absent,
  plus the amount. Whenever \<^verbatim>\<open>step\<close> returns, it returns this unrounded sum; with no
  precision available it also hands the unrounded sum to \<^verbatim>\<open>handleChange\<close>.
  \<^verbatim>\<open>increment\<close> is \<^verbatim>\<open>step\<close> with the \<^verbatim>\<open>step\<close> prop and \<^verbatim>\<open>decrement\<close> with its negation;
  from 5, a step of 1 gives 6 and a step of -1 gives 4.
\<close>

theorem step_sum:
  "(\<forall>r. step amount w = Inr r \<longrightarrow>
      fst r = js_add (js_or (prop_value (props (user w))) (Num (Fin 0))) amount)
   \<and> (is_nullish (decimals_of (props (user w))) \<longrightarrow>
        step amount w =
          Inr (js_add (js_or (prop_value (props (user w))) (Num (Fin 0))) amount,
               handleChange (js_add (js_or (prop_value (props (user w))) (Num (Fin 0))) amount) w))
   \<and> (prop_value (props (user w)) \<noteq> Num NaN \<and> prop_value (props (user w)) \<noteq> Str [] \<longrightarrow>
        js_add (js_or (prop_value (props (user w))) (Num (Fin 0))) amount =
          nextValue_spec (prop_value (props (user w))) amount)
   \<and> increment w = step (prop_step (props (user w))) w
   \<and> decrement w = step (Num (num_neg (ToNumber (prop_step (props (user w)))))) w
   \<and> increment (mount (defaultProps\<lparr>prop_value := Num (Fin 5)\<rparr>)) =
        Inr (Num (Fin 6), handleChange (Num (Fin 6)) (mount (defaultProps\<lparr>prop_value := Num (Fin 5)\<rparr>)))
   \<and> decrement (mount (defaultProps\<lparr>prop_value := Num (Fin 5)\<rparr>)) =
        Inr (Num (Fin 4), handleChange (Num (Fin 4)) (mount (defaultProps\<lparr>prop_value := Num (Fin 5)\<rparr>)))"
proof -
  let ?w5 = "mount (defaultProps\<lparr>prop_value := Num (Fin 5)\<rparr>)"
  have nul: "is_nullish (decimals_of (props (user ?w5)))"
    by (simp add: mount_def defaultProps_def decimals_of_def)
  have inc: "increment ?w5 = Inr (Num (Fin 6), handleChange (Num (Fin 6)) ?w5)"
    unfolding increment_def step_no_precision [OF nul]
    by (simp add: mount_def defaultProps_def js_or_def js_add_def to_double_6)
  have dec: "decrement ?w5 = Inr (Num (Fin 4), handleChange (Num (Fin 4)) ?w5)"
    unfolding decrement_def step_no_precision [OF nul]
    by (simp add: mount_def defaultProps_def js_or_def js_add_def to_double_4)
  show ?thesis
    using step_value [of amount w] step_no_precision [of w amount]
      js_or_default [of "prop_value (props (user w))" amount] inc dec
    by (simp add: increment_def decrement_def)
qed

theorem step_sum_witness:
  "is_nullish (decimals_of (props (user (mount (defaultProps\<lparr>prop_value := Num (Fin 1)\<rparr>)))))
   \<and> step (Num (Fin 1)) (mount (defaultProps\<lparr>prop_value := Num (Fin 1)\<rparr>)) =
       Inr (Num (Fin 2), handleChange (Num (Fin 2)) (mount (defaultProps\<lparr>prop_value := Num (Fin 1)\<rparr>)))
   \<and> nextValue_spec (Num (Fin 1)) (Num (Fin 1)) = Num (Fin 2)"
  using step_sum [of "Num (Fin 1)" "mount (defaultProps\<lparr>prop_value := Num (Fin 1)\<rparr>)"]
  by (simp add: mount_def defaultProps_def decimals_of_def js_or_def js_add_def to_double_2)

subsection \<open>Exceptions and NaN\<close>

lemma toFixed_ok:
  "ToIntegerOrInfinity (ToNumber p) = Fin f \<Longrightarrow> 0 \<le> f \<Longrightarrow> f \<le> 100 \<Longrightarrow> \<exists>s. toFixed x p = Inr s"
  by (cases x) (auto simp: toFixed_def)

lemma toFixed_err:
  "\<not> (case ToIntegerOrInfinity (ToNumber p) of Fin f \<Rightarrow> 0 \<le> f \<and> f \<le> 100 | _ \<Rightarrow> False)
     \<Longrightarrow> toFixed x p = Inl RangeError"
  by (auto simp: toFixed_def split: jsnum.splits)

lemma round_js_ok: "fraction_digits_ok p \<Longrightarrow> \<exists>s. round_js v p = Inr s"
  unfolding round_js_def Let_def fraction_digits_ok_def
  by (auto split: jsnum.splits intro: toFixed_ok)

lemma round_js_err: "\<not> fraction_digits_ok p \<Longrightarrow> round_js v p = Inl RangeError"
  unfolding round_js_def Let_def fraction_digits_ok_def
  by (rule toFixed_err)

lemma trim_head: "\<not> is_space c \<Longrightarrow> \<exists>u'. trim (c # u) = c # u'"
proof -
  assume c: "\<not> is_space c"
  have "\<exists>zs. dropWhile is_space (rev u @ [c]) = zs @ [c]"
    using c by (simp add: dropWhile_append)
  then obtain zs where "dropWhile is_space (rev u @ [c]) = zs @ [c]" ..
  then have "trim (c # u) = c # rev zs"
    using c by (simp add: trim_def)
  then show ?thesis ..
qed

text \<open>A string that starts with \<^verbatim>\<open>N\<close> is no numeric literal.\<close>

lemma StringToNumber_N: "StringToNumber (CHR ''N'' # u) = NaN"
proof -
  have ns: "\<not> is_space CHR ''N''" by (simp add: is_space_def)
  obtain u' where t: "trim (CHR ''N'' # u) = CHR ''N'' # u'"
    using trim_head [OF ns] by blast
  have nd: "\<not> is_digit CHR ''N''" by (simp add: is_digit_def)
  have "parse_non_decimal (CHR ''N'' # u') = None"
    by (simp add: parse_non_decimal_def split: list.splits)
  moreover have "parse_decimal (CHR ''N'' # u') = None"
    using nd by (simp add: parse_decimal_def parse_unsigned_def Let_def)
  ultimately show ?thesis
    by (simp add: StringToNumber_def t)
qed

lemma round_js_NaN: "fraction_digits_ok p \<Longrightarrow> round_js (Num NaN) p = Inr ''NaN''"
  unfolding round_js_def Let_def fraction_digits_ok_def
  by (auto simp: js_add_def index_def StringToNumber_N toFixed_def split: jsnum.splits)

lemma clamp_NaN_string: "clamp (Str ''NaN'') mn mx = Num NaN"
  by (simp add: clamp_def StringToNumber_N Math_min_def Math_max_def)

lemma num_add_NaN: "num_add a NaN = NaN"
  by (cases a) auto

lemma js_add_NaN: "\<not> is_string v \<Longrightarrow> js_add (js_or v (Num (Fin 0))) (Num NaN) = Num NaN"
  by (cases v) (auto simp: js_add_def js_or_def num_add_NaN)

lemma handleChange_NaN:
  "clamp raw (prop_min (props (user w))) (prop_max (props (user w))) = Num NaN \<Longrightarrow>
   nextValue (last (notified (user (handleChange raw w)))) = Num NaN
   \<and> length (notified (user (handleChange raw w))) = Suc (length (notified (user w)))"
  by (cases "prop_value (props (user w))") (simp_all add: handleChange_def Let_def)

lemma step_NaN_amount:
  assumes "is_nullish (decimals_of (props (user w))) \<or> fraction_digits_ok (decimals_of (props (user w)))"
    and "\<not> is_string (prop_value (props (user w)))"
  shows "\<exists>w'. step (Num NaN) w = Inr (Num NaN, w')
           \<and> nextValue (last (notified (user w'))) = Num NaN
           \<and> length (notified (user w')) = Suc (length (notified (user w)))"
proof (cases "is_nullish (decimals_of (props (user w)))")
  case True
  then show ?thesis
    using assms(2) handleChange_NaN [of "Num NaN" w]
    by (simp add: step_no_precision js_add_NaN clamp_NaN)
next
  case False
  with assms(1) have "fraction_digits_ok (decimals_of (props (user w)))" by simp
  then show ?thesis
    using False assms(2) handleChange_NaN [of "Str ''NaN''" w]
    by (simp add: step_precision js_add_NaN round_js_NaN clamp_NaN_string)
qed

lemma step_ok:
  "is_nullish (decimals_of (props (user w))) \<or> fraction_digits_ok (decimals_of (props (user w)))
     \<Longrightarrow> \<exists>r. step amount w = Inr r"
proof (cases "is_nullish (decimals_of (props (user w)))")
  case True
  then show ?thesis by (simp add: step_no_precision)
next
  case False
  assume "is_nullish (decimals_of (props (user w))) \<or> fraction_digits_ok (decimals_of (props (user w)))"
  with False have "fraction_digits_ok (decimals_of (props (user w)))" by simp
  from round_js_ok [OF this]
  obtain s where
    "round_js (js_add (js_or (prop_value (props (user w))) (Num (Fin 0))) amount)
       (decimals_of (props (user w))) = Inr s"
    by blast
  then show ?thesis
    using False by (simp add: step_precision)
qed

lemma step_err:
  "\<not> is_nullish (decimals_of (props (user w))) \<Longrightarrow>
   \<not> fraction_digits_ok (decimals_of (props (user w))) \<Longrightarrow> step amount w = Inl RangeError"
  by (simp add: step_precision round_js_err)

text \<open>
  \<^bold>\<open>C7\<close> as stated fails twice. With a precision of -1, \<^verbatim>\<open>step\<close> reaches
  \<^verbatim>\<open>toFixed(-1)\<close> in \<^verbatim>\<open>round\<close>, which throws a RangeError. With \<^verbatim>\<open>NaN\<close> as the current
  value, \<^verbatim>\<open>step\<close> computes \<^verbatim>\<open>(NaN || 0) + 2\<close>, which is 2 and not \<^verbatim>\<open>NaN\<close>.
\<close>

theorem engine_total_counterexample:
  "step (Num (Fin 1)) (mount (defaultProps\<lparr>prop_value := Num (Fin 5), prop_precision := Num (Fin (- 1))\<rparr>))
     = Inl RangeError
   \<and> step (Num (Fin 2)) (mount (defaultProps\<lparr>prop_value := Num NaN\<rparr>)) =
       Inr (Num (Fin 2), handleChange (Num (Fin 2)) (mount (defaultProps\<lparr>prop_value := Num NaN\<rparr>)))"
proof -
  let ?w = "mount (defaultProps\<lparr>prop_value := Num (Fin 5), prop_precision := Num (Fin (- 1))\<rparr>)"
  have d: "decimals_of (props (user ?w)) = Num (Fin (- 1))"
    by (simp add: mount_def defaultProps_def decimals_of_def)
  have "\<not> fraction_digits_ok (Num (Fin (- 1)))"
    by (simp add: fraction_digits_ok_def js_or_def)
  then have a: "step (Num (Fin 1)) ?w = Inl RangeError"
    using d by (simp add: step_err)
  have "is_nullish (decimals_of (props (user (mount (defaultProps\<lparr>prop_value := Num NaN\<rparr>)))))"
    by (simp add: mount_def defaultProps_def decimals_of_def)
  from step_no_precision [OF this, of "Num (Fin 2)"] a show ?thesis
    by (simp add: mount_def defaultProps_def js_or_def js_add_def to_double_2)
qed

text \<open>
  \<^bold>\<open>C7\<close>, amended. \<^verbatim>\<open>clamp\<close> raises nothing and returns \<^verbatim>\<open>NaN\<close> for a \<^verbatim>\<open>NaN\<close> value.
  \<^verbatim>\<open>step\<close> returns normally when no precision is available or the precision is within
  0 to 100, and raises the RangeError of \<^verbatim>\<open>toFixed\<close> for every other precision. A \<^verbatim>\<open>NaN\<close>
  amount propagates through \<^verbatim>\<open>step\<close>, for a current value that is a number or absent:
  \<^verbatim>\<open>step\<close> returns \<^verbatim>\<open>NaN\<close> and reports \<^verbatim>\<open>NaN\<close> to \<^verbatim>\<open>onChange\<close>. A \<^verbatim>\<open>NaN\<close> current value does
  not propagate: \<^verbatim>\<open>NaN || 0\<close> replaces it by 0.
\<close>

theorem engine_total:
  "clamp (Num NaN) mn mx = Num NaN
   \<and> (is_nullish (decimals_of (props (user w))) \<or> fraction_digits_ok (decimals_of (props (user w)))
        \<longrightarrow> (\<exists>r. step amount w = Inr r))
   \<and> (\<not> is_nullish (decimals_of (props (user w))) \<and> \<not> fraction_digits_ok (decimals_of (props (user w)))
        \<longrightarrow> step amount w = Inl RangeError)
   \<and> ((is_nullish (decimals_of (props (user w))) \<or> fraction_digits_ok (decimals_of (props (user w))))
        \<and> \<not> is_string (prop_value (props (user w)))
        \<longrightarrow> (\<exists>w'. step (Num NaN) w = Inr (Num NaN, w')
               \<and> nextValue (last (notified (user w'))) = Num NaN
               \<and> length (notified (user w')) = Suc (length (notified (user w)))))
   \<and> js_or (Num NaN) (Num (Fin 0)) = Num (Fin 0)"
  using clamp_NaN [of mn mx] step_ok [of w amount] step_err [of w amount] step_NaN_amount [of w]
  by (simp add: js_or_def)

theorem engine_total_witness:
  "fraction_digits_ok (decimals_of (props (user (mount (defaultProps\<lparr>prop_precision := Num (Fin 2)\<rparr>)))))
   \<and> \<not> is_string (prop_value (props (user (mount (defaultProps\<lparr>prop_precision := Num (Fin 2)\<rparr>)))))
   \<and> (\<exists>w'. step (Num NaN) (mount (defaultProps\<lparr>prop_precision := Num (Fin 2)\<rparr>)) = Inr (Num NaN, w')
         \<and> nextValue (last (notified (user w'))) = Num NaN)
   \<and> \<not> is_nullish (decimals_of (props (user (mount (defaultProps\<lparr>prop_precision := Num (Fin 101)\<rparr>)))))
   \<and> \<not> fraction_digits_ok (decimals_of (props (user (mount (defaultProps\<lparr>prop_precision := Num (Fin 101)\<rparr>)))))
   \<and> step (Num (Fin 1)) (mount (defaultProps\<lparr>prop_precision := Num (Fin 101)\<rparr>)) = Inl RangeError"
proof -
  have a: "fraction_digits_ok (decimals_of (props (user (mount (defaultProps\<lparr>prop_precision := Num (Fin 2)\<rparr>)))))"
    by (simp add: mount_def defaultProps_def decimals_of_def fraction_digits_ok_def js_or_def)
  have b: "\<not> is_string (prop_value (props (user (mount (defaultProps\<lparr>prop_precision := Num (Fin 2)\<rparr>)))))"
    by (simp add: mount_def defaultProps_def)
  have c: "\<not> is_nullish (decimals_of (props (user (mount (defaultProps\<lparr>prop_precision := Num (Fin 101)\<rparr>)))))"
    by (simp add: mount_def defaultProps_def decimals_of_def)
  have d: "\<not> fraction_digits_ok (decimals_of (props (user (mount (defaultProps\<lparr>prop_precision := Num (Fin 101)\<rparr>)))))"
    by (simp add: mount_def defaultProps_def decimals_of_def fraction_digits_ok_def js_or_def)
  show ?thesis
    using a b c d
      engine_total [of Null Null "mount (defaultProps\<lparr>prop_precision := Num (Fin 2)\<rparr>)" "Num NaN"]
      engine_total [of Null Null "mount (defaultProps\<lparr>prop_precision := Num (Fin 101)\<rparr>)" "Num (Fin 1)"]
    by blast
qed

section \<open>Properties of round\<close>







text \<open>\<^verbatim>\<open>Math.round\<close> picks the nearest integer, the upper one at a tie.\<close>

lemma Math_round_nearest:
  "Math_round (Fin q) = Fin (of_int n) \<longleftrightarrow> of_int n - 1 / 2 \<le> q \<and> q < of_int n + 1 / 2"
proof -
  have "\<lfloor>q + 1 / 2\<rfloor> = n \<longleftrightarrow> of_int n - 1 / 2 \<le> q \<and> q < of_int n + 1 / 2"
    by (auto simp: floor_eq_iff)
  then show ?thesis by simp
qed

lemma Math_round_tie: "Math_round (Fin (of_int n + 1 / 2)) = Fin (of_int n + 1)"
  using Math_round_nearest [of "of_int n + 1 / 2" "n + 1"] by simp

lemma digit_char_is_digit: "0 \<le> d \<Longrightarrow> d < 10 \<Longrightarrow> is_digit (digit_char d)"
proof -
  assume "0 \<le> d" "d < 10"
  then have "d = 0 \<or> d = 1 \<or> d = 2 \<or> d = 3 \<or> d = 4 \<or> d = 5 \<or> d = 6 \<or> d = 7 \<or> d = 8 \<or> d = 9"
    by arith
  then show ?thesis
    by (auto simp: is_digit_def digit_char_def)
qed

lemma digits_of_digits: "0 \<le> n \<Longrightarrow> list_all is_digit (digits_of n)"
proof (induction n rule: digits_of.induct)
  case (1 n)
  show ?case
  proof (cases "n < 10")
    case True
    with 1 show ?thesis by (simp add: digit_char_is_digit)
  next
    case False
    with 1 have "list_all is_digit (digits_of (n div 10))" by simp
    moreover have "is_digit (digit_char (n mod 10))"
      by (rule digit_char_is_digit) simp_all
    ultimately show ?thesis
      using False by (subst digits_of.simps) simp
  qed
qed


lemma fixed_digits_integer: "0 \<le> x \<Longrightarrow> list_all is_digit (fixed_digits x 0)"
proof -
  assume "0 \<le> x"
  then have "0 \<le> \<lfloor>x + 1 / 2\<rfloor>" by linarith
  from digits_of_digits [OF this] show ?thesis
    by (simp add: fixed_digits_def Let_def is_digit_def)
qed








lemma toFixed_101: "toFixed (Fin (101 / 100)) (Num (Fin 2)) = Inr ''1.01''"
  by code_simp

subsection \<open>Digit counts and logarithms\<close>

declare ndigits.simps [simp del]
declare digits_of.simps [simp del]

lemma ndigits_pos: "1 < b \<Longrightarrow> 0 < n \<Longrightarrow> 0 < ndigits b n"
proof -
  assume b: "1 < b" and n: "0 < n"
  have "0 \<le> ndigits b m" for m
  proof (induction b m rule: ndigits.induct)
    case (1 b n)
    show ?case
      using 1 by (subst ndigits.simps) auto
  qed
  from this [of "n div b"] show ?thesis
    using b n by (subst ndigits.simps) auto
qed

lemma ndigits_bounds:
  "1 < b \<Longrightarrow> 0 < n \<Longrightarrow>
   b ^ nat (ndigits b n - 1) \<le> n \<and> n < b ^ nat (ndigits b n)"
proof (induction b n rule: ndigits.induct)
  case (1 b n)
  show ?case
  proof (cases "n < b")
    case True
    then have "n div b = 0" using 1 by simp
    then have "ndigits b n = 1"
      using 1 by (subst ndigits.simps) (simp add: ndigits.simps [of b 0])
    then show ?thesis using True 1 by simp
  next
    case False
    then have pos: "0 < n div b" using 1
      by (simp add: pos_imp_zdiv_pos_iff)
    have nd: "ndigits b n = 1 + ndigits b (n div b)"
      using 1 by (subst ndigits.simps) simp
    from 1 pos have ih: "b ^ nat (ndigits b (n div b) - 1) \<le> n div b
        \<and> n div b < b ^ nat (ndigits b (n div b))"
      by simp
    have p: "0 < ndigits b (n div b)" using ndigits_pos [OF "1.prems"(1) pos] .
    have e1: "nat (ndigits b n - 1) = Suc (nat (ndigits b (n div b) - 1))"
      using nd p by simp
    have e2: "nat (ndigits b n) = Suc (nat (ndigits b (n div b)))"
      using nd p by simp
    have dm: "n = b * (n div b) + n mod b" by simp
    have m0: "0 \<le> n mod b" "n mod b < b" using 1 by simp_all
    have "b * (n div b) \<le> n" using dm m0 by linarith
    moreover have "b * b ^ nat (ndigits b (n div b) - 1) \<le> b * (n div b)"
      using ih 1 by (simp add: mult_left_mono)
    ultimately have lo: "b ^ nat (ndigits b n - 1) \<le> n"
      unfolding e1 by simp
    have "n div b + 1 \<le> b ^ nat (ndigits b (n div b))" using ih by simp
    then have "b * (n div b + 1) \<le> b * b ^ nat (ndigits b (n div b))"
      using 1 by (simp add: mult_left_mono)
    moreover have "n < b * (n div b + 1)"
    proof -
      have "n < b * (n div b) + b" using dm m0 by linarith
      then show ?thesis by (simp add: distrib_left)
    qed
    ultimately have hi: "n < b ^ nat (ndigits b n)"
      unfolding e2 by simp
    from lo hi show ?thesis by simp
  qed
qed

lemma ilog_bounds:
  assumes b: "1 < b" and a: "0 < a"
  shows "power_int (of_int b) (ilog b a) \<le> a \<and> a < power_int (of_int b) (ilog b a + 1)"
proof -
  obtain p q where pq: "quotient_of a = (p, q)" by (cases "quotient_of a") auto
  have q0: "0 < q" using quotient_of_denom_pos [OF pq] .
  have av: "a = of_int p / of_int q" using quotient_of_div [OF pq] .
  have p0: "0 < p"
  proof (rule ccontr)
    assume "\<not> 0 < p"
    then have "of_int p \<le> (0::rat)" by simp
    then have "a \<le> 0" unfolding av using q0 by (simp add: divide_nonpos_pos)
    with a show False by simp
  qed
  define P where "P = ndigits b p"
  define Q where "Q = ndigits b q"
  define B :: rat where "B = of_int b"
  have B1: "1 < B" using b by (simp add: B_def)
  have B0: "B \<noteq> 0" using B1 by simp
  have Ppos: "0 < P" and Qpos: "0 < Q"
    using ndigits_pos [OF b p0] ndigits_pos [OF b q0] by (simp_all add: P_def Q_def)
  from ndigits_bounds [OF b p0] have pb: "b ^ nat (P - 1) \<le> p" "p < b ^ nat P"
    by (simp_all add: P_def)
  from ndigits_bounds [OF b q0] have qb: "b ^ nat (Q - 1) \<le> q" "q < b ^ nat Q"
    by (simp_all add: Q_def)
  have pl: "power_int B (P - 1) \<le> of_int p"
  proof -
    have "of_int (b ^ nat (P - 1)) \<le> (of_int p :: rat)" using pb(1) by (simp only: of_int_le_iff)
    then show ?thesis using Ppos by (simp add: power_int_nonneg_exp B_def)
  qed
  have pu: "of_int p < power_int B P"
  proof -
    have "(of_int p :: rat) < of_int (b ^ nat P)" using pb(2) by (simp only: of_int_less_iff)
    then show ?thesis using Ppos by (simp add: power_int_nonneg_exp B_def)
  qed
  have ql: "power_int B (Q - 1) \<le> of_int q"
  proof -
    have "of_int (b ^ nat (Q - 1)) \<le> (of_int q :: rat)" using qb(1) by (simp only: of_int_le_iff)
    then show ?thesis using Qpos by (simp add: power_int_nonneg_exp B_def)
  qed
  have qu: "of_int q < power_int B Q"
  proof -
    have "(of_int q :: rat) < of_int (b ^ nat Q)" using qb(2) by (simp only: of_int_less_iff)
    then show ?thesis using Qpos by (simp add: power_int_nonneg_exp B_def)
  qed
  have qr: "(0::rat) < of_int q" using q0 by simp
  have pr: "(0::rat) < of_int p" using p0 by simp
  have BQ: "0 < power_int B (Q - 1)" "0 < power_int B Q" "0 < power_int B P"
    using B1 by simp_all
  have up: "a < power_int B (P - Q + 1)"
  proof -
    have "a < power_int B P / of_int q"
      unfolding av using pu qr by (simp add: divide_strict_right_mono)
    also have "\<dots> \<le> power_int B P / power_int B (Q - 1)"
      using ql BQ by (simp add: divide_left_mono)
    also have "\<dots> = power_int B (P - (Q - 1))"
      using B0 by (simp add: power_int_diff)
    finally show ?thesis by (simp add: algebra_simps)
  qed
  have lo: "power_int B (P - Q - 1) < a"
  proof -
    have "power_int B (P - 1 - Q) = power_int B (P - 1) / power_int B Q"
      using B0 by (simp add: power_int_diff)
    also have "\<dots> \<le> of_int p / power_int B Q"
      using pl BQ by (simp add: divide_right_mono)
    also have "\<dots> < of_int p / of_int q"
      using qu qr pr by (simp add: divide_strict_left_mono)
    finally show ?thesis unfolding av by (simp add: algebra_simps)
  qed
  have il: "ilog b a = (if power_int B (P - Q) \<le> a then P - Q else P - Q - 1)"
    by (simp add: ilog_def pq Let_def P_def Q_def B_def)
  show ?thesis
  proof (cases "power_int B (P - Q) \<le> a")
    case True
    then show ?thesis using up il by (simp add: B_def)
  next
    case False
    then have "ilog b a = P - Q - 1" using il by simp
    then show ?thesis using False lo by (simp add: B_def)
  qed
qed

lemma powi_less_cancel: "1 < (x::rat) \<Longrightarrow> power_int x m < power_int x n \<Longrightarrow> m < n"
proof (rule ccontr)
  assume x: "1 < x" and l: "power_int x m < power_int x n" and "\<not> m < n"
  then have "n \<le> m" by simp
  from power_int_increasing [OF this, of x] x have "power_int x n \<le> power_int x m" by simp
  with l show False by simp
qed

lemma powi_le_cancel: "1 < (x::rat) \<Longrightarrow> power_int x m \<le> power_int x n \<Longrightarrow> m \<le> n"
proof (rule ccontr)
  assume x: "1 < x" and l: "power_int x m \<le> power_int x n" and "\<not> m \<le> n"
  then have "n < m" by simp
  from power_int_strict_increasing [OF this x] have "power_int x n < power_int x m" .
  with l show False by simp
qed

lemma ilog_unique:
  assumes "1 < b" "0 < a" "power_int (of_int b) e \<le> a" "a < power_int (of_int b) (e + 1)"
  shows "ilog b a = e"
proof -
  let ?B = "of_int b :: rat"
  have B1: "1 < ?B" using assms(1) by simp
  from ilog_bounds [OF assms(1,2)] have
    i1: "power_int ?B (ilog b a) \<le> a" and i2: "a < power_int ?B (ilog b a + 1)" by simp_all
  have "power_int ?B (ilog b a) < power_int ?B (e + 1)" using i1 assms(4) by simp
  then have "ilog b a < e + 1" using B1 powi_less_cancel by blast
  moreover have "power_int ?B e < power_int ?B (ilog b a + 1)" using i2 assms(3) by simp
  then have "e < ilog b a + 1" using B1 powi_less_cancel by blast
  ultimately show ?thesis by simp
qed

subsection \<open>Rounding to binary64\<close>



lemma rhe_floor: "\<lfloor>q\<rfloor> \<le> round_half_even q"
  by (simp add: round_half_even_def Let_def)






subsection \<open>Decimals of at most 15 digits\<close>




subsection \<open>The shortest digits of a decimal\<close>













subsection \<open>Digit strings\<close>











lemma pow10_less_cancel: "(10::int) ^ a < 10 ^ b \<Longrightarrow> a < b"
  by simp





subsection \<open>Reading decimal texts\<close>













lemma parse_decimal_unsigned:
  assumes "s \<noteq> []" "hd s \<noteq> CHR ''+''" "hd s \<noteq> CHR ''-''"
  shows "parse_decimal s = parse_unsigned s"
  using assms by (cases s) (simp_all add: parse_decimal_def)











subsection \<open>Shifting the exponent\<close>






subsection \<open>Rounding at the half-integers\<close>



subsection \<open>Shifting back and formatting\<close>




subsection \<open>The result of round\<close>




subsection \<open>The claim about round\<close>













section \<open>Properties of the repeat timer\<close>

lemma earliest_in_set: "earliest q = Some t \<Longrightarrow> t \<in> set q"
  by (induction q arbitrary: t) (auto split: option.splits if_splits)

lemma tick_empty: "queue w = [] \<Longrightarrow> tick run w = w"
  by (simp add: tick_def)

lemma ticks_empty: "queue w = [] \<Longrightarrow> ticks run n w = w"
  by (induction n) (simp_all add: tick_empty)

lemma fn_unfold:
  "fn run k w =
     run (callback_of w k)
       (w\<lparr>next_id := Suc (next_id w), queue := queue w @ [(next_id w, now w + 35, k)],
          id_var := (id_var w)(k := next_id w), fired := fired w @ [(now w, k)]\<rparr>)"
  by (simp add: fn_def setTimeout_def Let_def)

lemma createInterval_unfold:
  "createInterval c w =
     (intervals w,
      w\<lparr>intervals := Suc (intervals w), callback_of := (callback_of w)(intervals w := c),
        next_id := Suc (next_id w), queue := queue w @ [(next_id w, now w + 500, intervals w)],
        id_var := (id_var w)(intervals w := next_id w)\<rparr>)"
  by (simp add: createInterval_def setTimeout_def Let_def)

lemma cancel_idem: "cancel k (cancel k w) = cancel k w"
  by (simp add: cancel_def clearTimeout_def)

lemma tick_single:
  assumes "quiet run" "queue w = [(i, due, k)]"
  shows "\<exists>u. tick run w =
           w\<lparr>now := max (now w) due, next_id := Suc (next_id w),
             queue := [(next_id w, max (now w) due + 35, k)],
             id_var := (id_var w)(k := next_id w),
             fired := fired w @ [(max (now w) due, k)], user := u\<rparr>"
proof -
  let ?w2 = "w\<lparr>now := max (now w) due, queue := [],
       next_id := Suc (next_id w), queue := [(next_id w, max (now w) due + 35, k)],
       id_var := (id_var w)(k := next_id w), fired := fired w @ [(max (now w) due, k)]\<rparr>"
  from assms(1) obtain u where "run (callback_of w k) ?w2 = ?w2\<lparr>user := u\<rparr>"
    unfolding quiet_def by blast
  then have "tick run w = ?w2\<lparr>user := u\<rparr>"
    using assms(2) by (simp add: tick_def fn_unfold clearTimeout_def)
  then show ?thesis by auto
qed

lemma map_upt_shift: "f 0 # map (\<lambda>j. f (Suc j)) [0..<n] = map f [0..<Suc n]"
  by (induction n) auto

lemma ticks_single:
  assumes q: "quiet run"
  shows "queue w = [(i, due, k)] \<Longrightarrow> now w \<le> due \<Longrightarrow>
     (\<exists>i'. queue (ticks run n w) = [(i', due + 35 * n, k)]
         \<and> (id_var w k = i \<longrightarrow> id_var (ticks run n w) k = i'))
     \<and> fired (ticks run n w) = fired w @ map (\<lambda>j. (due + 35 * j, k)) [0..<n]
     \<and> now (ticks run n w) \<le> due + 35 * n"
proof (induction n arbitrary: w i due)
  case 0
  then show ?case by simp
next
  case (Suc n)
  from tick_single [OF q Suc.prems(1)] obtain u where
    t: "tick run w =
           w\<lparr>now := max (now w) due, next_id := Suc (next_id w),
             queue := [(next_id w, max (now w) due + 35, k)],
             id_var := (id_var w)(k := next_id w),
             fired := fired w @ [(max (now w) due, k)], user := u\<rparr>"
    by blast
  have m: "max (now w) due = due" using Suc.prems(2) by simp
  have q1: "queue (tick run w) = [(next_id w, due + 35, k)]" by (simp add: t m)
  have n1: "now (tick run w) \<le> due + 35" by (simp add: t m)
  have f1: "fired (tick run w) = fired w @ [(due, k)]" by (simp add: t m)
  have i1: "id_var (tick run w) k = next_id w" by (simp add: t)
  from Suc.IH [OF q1 n1] i1 have
    a: "\<exists>i'. queue (ticks run n (tick run w)) = [(i', due + 35 + 35 * n, k)]
          \<and> id_var (ticks run n (tick run w)) k = i'"
    and b: "fired (ticks run n (tick run w)) =
        fired (tick run w) @ map (\<lambda>j. (due + 35 + 35 * j, k)) [0..<n]"
    and c: "now (ticks run n (tick run w)) \<le> due + 35 + 35 * n"
    by auto
  have "(due, k) # map (\<lambda>j. (due + 35 + 35 * j, k)) [0..<n] = map (\<lambda>j. (due + 35 * j, k)) [0..<Suc n]"
    using map_upt_shift [of "\<lambda>j. (due + 35 * j, k)" n] by (simp add: add.assoc)
  with a b c f1 show ?case
    by (auto simp: add.assoc)
qed

lemma schedule_of_quiet_callback:
  assumes "quiet run" "queue w = []"
  shows "fst (createInterval c w) = intervals w
     \<and> (\<forall>n. (\<exists>i. queue (ticks run n (snd (createInterval c w))) = [(i, now w + 500 + 35 * n, intervals w)]
               \<and> id_var (ticks run n (snd (createInterval c w))) (intervals w) = i)
          \<and> fired (ticks run n (snd (createInterval c w))) =
              fired w @ map (\<lambda>j. (now w + 500 + 35 * j, intervals w)) [0..<n])"
proof -
  let ?w0 = "snd (createInterval c w)"
  have q0: "queue ?w0 = [(next_id w, now w + 500, intervals w)]"
    using assms(2) by (simp add: createInterval_unfold)
  have n0: "now ?w0 \<le> now w + 500"
    by (simp add: createInterval_unfold)
  have f0: "fired ?w0 = fired w"
    by (simp add: createInterval_unfold)
  have i0: "id_var ?w0 (intervals w) = next_id w"
    by (simp add: createInterval_unfold)
  show ?thesis
    using ticks_single [OF assms(1) q0 n0] f0 i0
    by (simp add: createInterval_unfold)
qed

lemma cancel_after_firings:
  assumes "quiet run" "queue w = []"
  shows "queue (cancel (intervals w) (ticks run m (snd (createInterval c w)))) = []
     \<and> fired (ticks run' n (cancel (intervals w) (ticks run m (snd (createInterval c w))))) =
         fired (ticks run m (snd (createInterval c w)))"
proof -
  let ?wm = "ticks run m (snd (createInterval c w))"
  from schedule_of_quiet_callback [OF assms, of c] obtain i where
    "queue ?wm = [(i, now w + 500 + 35 * m, intervals w)]" "id_var ?wm (intervals w) = i"
    by blast
  then have e: "queue (cancel (intervals w) ?wm) = []"
    by (simp add: cancel_def clearTimeout_def)
  then have "ticks run' n (cancel (intervals w) ?wm) = cancel (intervals w) ?wm"
    by (rule ticks_empty)
  then show ?thesis
    using e by (simp add: cancel_def clearTimeout_def)
qed

lemma cancelling_callback:
  assumes "queue w = []"
  shows "queue (tick run_callback (snd (createInterval (CancelHandle (intervals w)) w))) = []
     \<and> fired (tick run_callback (snd (createInterval (CancelHandle (intervals w)) w))) =
         fired w @ [(now w + 500, intervals w)]"
  using assms
  by (simp add: createInterval_unfold tick_def fn_unfold clearTimeout_def cancel_def)

lemma pending_empty_iff: "pending k w = [] \<longleftrightarrow> (\<forall>t \<in> set (queue w). snd (snd t) \<noteq> k)"
  by (auto simp: pending_def filter_empty_conv)

lemma no_pending_tick:
  assumes "quiet run" "pending k w = []"
  shows "pending k (tick run w) = [] \<and> calls_of k (tick run w) = calls_of k w"
proof (cases "earliest (queue w)")
  case None
  then show ?thesis using assms(2) by (simp add: tick_def)
next
  case (Some t)
  obtain i due j where t: "t = (i, due, j)" by (cases t) auto
  from earliest_in_set [OF Some] assms(2) have jk: "j \<noteq> k"
    by (auto simp: pending_empty_iff t)
  let ?w1 = "clearTimeout i (w\<lparr>now := max (now w) due\<rparr>)"
  let ?w2 = "?w1\<lparr>next_id := Suc (next_id ?w1), queue := queue ?w1 @ [(next_id ?w1, now ?w1 + 35, j)],
          id_var := (id_var ?w1)(j := next_id ?w1), fired := fired ?w1 @ [(now ?w1, j)]\<rparr>"
  from assms(1) obtain u where "run (callback_of ?w1 j) ?w2 = ?w2\<lparr>user := u\<rparr>"
    unfolding quiet_def by blast
  then have "tick run w = ?w2\<lparr>user := u\<rparr>"
    using Some by (simp add: tick_def t fn_unfold)
  then show ?thesis
    using assms(2) jk
    by (auto simp: pending_empty_iff calls_of_def clearTimeout_def)
qed

lemma no_pending_ticks:
  assumes "quiet run"
  shows "pending k w = [] \<Longrightarrow>
     pending k (ticks run n w) = [] \<and> calls_of k (ticks run n w) = calls_of k w"
proof (induction n arbitrary: w)
  case 0
  then show ?case by simp
next
  case (Suc n)
  from no_pending_tick [OF assms Suc.prems] Suc.IH [of "tick run w"] show ?case
    by simp
qed

lemma cancel_pending: "owns k w \<Longrightarrow> pending k (cancel k w) = []"
  by (auto simp: owns_def pending_empty_iff cancel_def clearTimeout_def list_all_iff)

lemma cancel_calls: "calls_of k (cancel j w) = calls_of k w"
  by (simp add: calls_of_def cancel_def clearTimeout_def)

lemma cancel_idle: "owns k w \<Longrightarrow> pending k w = [] \<Longrightarrow> cancel k w = w"
proof -
  assume "owns k w" "pending k w = []"
  then have "filter (\<lambda>t. fst t \<noteq> id_var w k) (queue w) = queue w"
    by (auto simp: owns_def pending_empty_iff list_all_iff filter_id_conv)
  then show ?thesis
    by (simp add: cancel_def clearTimeout_def)
qed

lemma cancel_others: "owns k w \<Longrightarrow> j \<noteq> k \<Longrightarrow> pending j (cancel k w) = pending j w"
proof -
  assume "owns k w" "j \<noteq> k"
  then have "\<And>t. t \<in> set (queue w) \<Longrightarrow> snd (snd t) = j \<Longrightarrow> fst t \<noteq> id_var w k"
    by (auto simp: owns_def list_all_iff)
  then show ?thesis
    by (auto simp: pending_def cancel_def clearTimeout_def intro: filter_cong)
qed

lemma start_then_cancel:
  assumes "queue w = []"
  shows "queue (cancel (intervals w) ((snd (createInterval c w))\<lparr>now := t\<rparr>)) = []
     \<and> fired (cancel (intervals w) ((snd (createInterval c w))\<lparr>now := t\<rparr>)) = fired w"
  using assms by (simp add: createInterval_unfold cancel_def clearTimeout_def)

section \<open>Properties of the component\<close>

lemma handleChange_frame:
  "queue (handleChange raw w) = queue w \<and> id_var (handleChange raw w) = id_var w
   \<and> cancelRepeater (user (handleChange raw w)) = cancelRepeater (user w)
   \<and> props (user (handleChange raw w)) = props (user w)
   \<and> intervals (handleChange raw w) = intervals w
   \<and> fired (handleChange raw w) = fired w"
  by (simp add: handleChange_def Let_def)

lemma step_frame:
  "step amount w = Inr (v, w1) \<Longrightarrow>
   queue w1 = queue w \<and> id_var w1 = id_var w \<and> cancelRepeater (user w1) = cancelRepeater (user w)
   \<and> props (user w1) = props (user w) \<and> intervals w1 = intervals w \<and> fired w1 = fired w"
  by (auto simp: step_def Let_def handleChange_frame split: if_splits sum.splits)

lemma single_timer_frame:
  "queue w1 = queue w \<Longrightarrow> id_var w1 = id_var w \<Longrightarrow>
   cancelRepeater (user w1) = cancelRepeater (user w) \<Longrightarrow> single_timer w1 = single_timer w"
  by (simp add: single_timer_def split: option.splits list.splits)

lemma handleMouseUp_stops:
  "single_timer w \<Longrightarrow> editable (props (user w)) \<Longrightarrow>
   queue (handleMouseUp w) = [] \<and> cancelRepeater (user (handleMouseUp w)) = None"
  by (auto simp: single_timer_def handleMouseUp_def cancel_def clearTimeout_def Let_def
      split: option.splits list.splits)

lemma single_timer_handleMouseUp: "single_timer w \<Longrightarrow> single_timer (handleMouseUp w)"
  by (auto simp: single_timer_def handleMouseUp_def cancel_def clearTimeout_def Let_def
      split: option.splits list.splits)

lemma single_timer_createInterval:
  "queue w = [] \<Longrightarrow>
   single_timer ((snd (createInterval d w))\<lparr>user := (user (snd (createInterval d w)))
       \<lparr>cancelRepeater := Some (fst (createInterval d w))\<rparr>\<rparr>)"
  by (simp add: single_timer_def createInterval_unfold)

lemma single_timer_handleMouseDown:
  assumes "single_timer w" "handleMouseDown d w = Inr w'"
  shows "single_timer w'"
proof (cases "editable (props (user w))")
  case False
  with assms show ?thesis by (simp add: handleMouseDown_def)
next
  case True
  from assms(2) True obtain v w1 where
    s: "(if d = UP then increment w else decrement w) = Inr (v, w1)"
    by (auto simp: handleMouseDown_def Let_def split: sum.splits)
  then have fr: "queue w1 = queue w \<and> id_var w1 = id_var w
      \<and> cancelRepeater (user w1) = cancelRepeater (user w) \<and> props (user w1) = props (user w)"
    using step_frame by (auto simp: increment_def decrement_def split: if_splits)
  then have st1: "single_timer w1"
    using assms(1) single_timer_frame [of w1 w] by simp
  show ?thesis
  proof (cases "(d = UP \<and> strict_eq v (prop_max (props (user w))))
                \<or> (d = DOWN \<and> strict_eq v (prop_min (props (user w))))")
    case True
    then have "w' = handleMouseUp w1"
      using assms(2) \<open>editable (props (user w))\<close> s
      by (auto simp: handleMouseDown_def Let_def)
    then show ?thesis using st1 single_timer_handleMouseUp by simp
  next
    case nb: False
    show ?thesis
    proof (cases "cancelRepeater (user w1)")
      case None
      then have q: "queue w1 = []" using st1 by (simp add: single_timer_def)
      have "w' = (snd (createInterval d w1))\<lparr>user := (user (snd (createInterval d w1)))
                    \<lparr>cancelRepeater := Some (fst (createInterval d w1))\<rparr>\<rparr>"
        using assms(2) \<open>editable (props (user w))\<close> s nb None
        by (auto simp: handleMouseDown_def Let_def split: prod.splits)
      then show ?thesis using single_timer_createInterval [OF q] by simp
    next
      case (Some k)
      then have "w' = w1"
        using assms(2) \<open>editable (props (user w))\<close> s nb
        by (auto simp: handleMouseDown_def Let_def)
      then show ?thesis using st1 by simp
    qed
  qed
qed

lemma single_timer_repeat: "single_timer w \<Longrightarrow> single_timer (repeat d w)"
  using single_timer_handleMouseDown [of w d]
  by (auto simp: repeat_def split: sum.splits)

lemma single_timer_tick: "single_timer w \<Longrightarrow> single_timer (tick repeat w)"
proof -
  assume st: "single_timer w"
  show ?thesis
  proof (cases "cancelRepeater (user w)")
    case None
    then have "queue w = []" using st by (simp add: single_timer_def)
    then show ?thesis using st by (simp add: tick_empty)
  next
    case (Some k)
    then obtain i due where q: "queue w = [(i, due, k)]" and i: "i = id_var w k"
      using st by (auto simp: single_timer_def split: list.splits)
    let ?w2 = "w\<lparr>now := max (now w) due, queue := [],
       next_id := Suc (next_id w), queue := [(next_id w, max (now w) due + 35, k)],
       id_var := (id_var w)(k := next_id w), fired := fired w @ [(max (now w) due, k)]\<rparr>"
    have "tick repeat w = repeat (callback_of w k) ?w2"
      using q by (simp add: tick_def fn_unfold clearTimeout_def)
    moreover have "single_timer ?w2"
      using Some by (simp add: single_timer_def)
    ultimately show ?thesis using single_timer_repeat by simp
  qed
qed

lemma single_timer_event: "single_timer w \<Longrightarrow> single_timer (apply_event e w)"
proof (cases e)
  case (MouseDown d)
  assume "single_timer w"
  then show ?thesis using MouseDown single_timer_repeat by simp
next
  case MouseUp
  assume "single_timer w"
  then show ?thesis using MouseUp single_timer_handleMouseUp by simp
next
  case Tick
  assume "single_timer w"
  then show ?thesis using Tick single_timer_tick by simp
next
  case (Elapse t)
  assume "single_timer w"
  then show ?thesis using Elapse single_timer_frame [of "w\<lparr>now := now w + t\<rparr>" w] by simp
next
  case (SetProps p)
  assume "single_timer w"
  then show ?thesis
    using SetProps single_timer_frame [of "w\<lparr>user := (user w)\<lparr>props := p\<rparr>\<rparr>" w] by simp
qed

lemma single_timer_run: "single_timer w \<Longrightarrow> single_timer (run_events es w)"
  unfolding run_events_def
  by (induction es arbitrary: w) (simp_all add: single_timer_event)

lemma single_timer_mount: "single_timer (mount p)"
  by (simp add: single_timer_def mount_def)

lemma single_timer_length: "single_timer w \<Longrightarrow> length (queue w) \<le> 1"
  by (auto simp: single_timer_def split: option.splits list.splits)









lemma handleMouseUp_idem: "handleMouseUp (handleMouseUp w) = handleMouseUp w"
  by (simp add: handleMouseUp_def Let_def)

lemma handleMouseUp_idle: "cancelRepeater (user w) = None \<Longrightarrow> handleMouseUp w = w"
  by (simp add: handleMouseUp_def Let_def)

lemma handleMouseUp_intervals: "intervals (handleMouseUp w) = intervals w"
  by (simp add: handleMouseUp_def cancel_def clearTimeout_def Let_def split: option.splits)

lemma no_second_interval:
  assumes "cancelRepeater (user w) \<noteq> None" "handleMouseDown d w = Inr w'"
  shows "intervals w' = intervals w"
proof (cases "editable (props (user w))")
  case False
  with assms show ?thesis by (simp add: handleMouseDown_def)
next
  case True
  from assms(2) True obtain v w1 where
    s: "(if d = UP then increment w else decrement w) = Inr (v, w1)"
    by (auto simp: handleMouseDown_def Let_def split: sum.splits)
  then have fr: "cancelRepeater (user w1) = cancelRepeater (user w) \<and> intervals w1 = intervals w"
    using step_frame by (auto simp: increment_def decrement_def split: if_splits)
  then have "w' = handleMouseUp w1 \<or> w' = w1"
    using assms True s by (auto simp: handleMouseDown_def Let_def split: if_splits)
  then show ?thesis
    using fr handleMouseUp_intervals by auto
qed

lemma held_eq:
  "cancelRepeater (user held) = Some 0 \<and> queue held = [(1, 500, 0)] \<and> intervals held = 1
   \<and> props (user held) = defaultProps"
  by (simp add: held_def repeat_def handleMouseDown_def increment_def step_def handleChange_def
      createInterval_unfold mount_def defaultProps_def Let_def js_or_def js_add_def
      clamp_def Math_min_def Math_max_def to_double_1)

section \<open>The claims about the timer and the component\<close>

text \<open>
  \<^bold>\<open>C3.\<close> Started on an idle host with a callback that leaves the timers alone,
  \<^verbatim>\<open>createInterval\<close> makes the callback fire 500ms after the start and then every 35ms,
  without end: after any number \<open>n\<close> of firings the calls were at 500, 535, \<dots> ms after the
  start and one timer is pending for the next. At each firing \<^verbatim>\<open>fn\<close> queues the next
  tick and stores its id before it runs the callback; a callback that calls the cancel
  handle during its first invocation therefore clears that tick, and is never called again.
\<close>

theorem interval_schedule:
  "(quiet run \<and> queue w = [] \<longrightarrow>
      fst (createInterval c w) = intervals w
      \<and> (\<forall>n. (\<exists>i. queue (ticks run n (snd (createInterval c w))) =
                     [(i, now w + 500 + 35 * n, intervals w)])
            \<and> fired (ticks run n (snd (createInterval c w))) =
                fired w @ map (\<lambda>j. (now w + 500 + 35 * j, intervals w)) [0..<n]))
   \<and> fn run k w =
       run (callback_of w k)
         (w\<lparr>next_id := Suc (next_id w), queue := queue w @ [(next_id w, now w + 35, k)],
            id_var := (id_var w)(k := next_id w), fired := fired w @ [(now w, k)]\<rparr>)
   \<and> (queue h = [] \<longrightarrow>
        queue (tick run_callback (snd (createInterval (CancelHandle (intervals h)) h))) = []
        \<and> (\<forall>n. fired (ticks run_callback (Suc n) (snd (createInterval (CancelHandle (intervals h)) h)))
                = fired h @ [(now h + 500, intervals h)]))"
proof -
  have a: "quiet run \<and> queue w = [] \<longrightarrow>
      fst (createInterval c w) = intervals w
      \<and> (\<forall>n. (\<exists>i. queue (ticks run n (snd (createInterval c w))) =
                     [(i, now w + 500 + 35 * n, intervals w)])
            \<and> fired (ticks run n (snd (createInterval c w))) =
                fired w @ map (\<lambda>j. (now w + 500 + 35 * j, intervals w)) [0..<n])"
    using schedule_of_quiet_callback [of run w c] by blast
  have b: "queue h = [] \<longrightarrow>
        queue (tick run_callback (snd (createInterval (CancelHandle (intervals h)) h))) = []
        \<and> (\<forall>n. fired (ticks run_callback (Suc n) (snd (createInterval (CancelHandle (intervals h)) h)))
                = fired h @ [(now h + 500, intervals h)])"
    using cancelling_callback [of h] by (simp add: ticks_empty)
  from a b fn_unfold [of run k w] show ?thesis by blast
qed

theorem interval_schedule_witness:
  "quiet (\<lambda>c (w :: (callback, unit) host). w) \<and> queue (idle_host 0) = []
   \<and> fired (ticks (\<lambda>c w. w) 3 (snd (createInterval Idle (idle_host 0)))) = [(500, 0), (535, 0), (570, 0)]
   \<and> queue (tick run_callback (snd (createInterval (CancelHandle 0) (idle_host 0)))) = []
   \<and> fired (ticks run_callback 4 (snd (createInterval (CancelHandle 0) (idle_host 0)))) = [(500, 0)]"
proof -
  have q: "quiet (\<lambda>c (w :: (callback, unit) host). w)"
    unfolding quiet_def by (intro allI, rule_tac x = "user w" in exI) simp
  have e: "queue (idle_host 0) = [] \<and> intervals (idle_host 0) = 0 \<and> now (idle_host 0) = 0
      \<and> fired (idle_host 0) = []"
    by (simp add: idle_host_def)
  have u: "[0..<3] = [0, 1, 2]" by (simp add: upt_rec)
  have i0: "intervals (idle_host 0 :: (callback, unit) host) = 0"
    by (simp add: idle_host_def)
  note t = interval_schedule [of "\<lambda>c w. w" "idle_host 0" Idle 0 "idle_host 0", unfolded i0]
  from t q e have
    "\<forall>n. fired (ticks (\<lambda>c w. w) n (snd (createInterval Idle (idle_host 0)))) =
        fired (idle_host 0) @ map (\<lambda>j. (now (idle_host 0) + 500 + 35 * j, 0)) [0..<n]"
    by blast
  then have a: "fired (ticks (\<lambda>c w. w) 3 (snd (createInterval Idle (idle_host 0)))) =
      [(500, 0), (535, 0), (570, 0)]"
    using e by (simp add: u)
  from t e have b: "queue (tick run_callback (snd (createInterval (CancelHandle 0) (idle_host 0)))) = []"
    and "\<forall>n. fired (ticks run_callback (Suc n) (snd (createInterval (CancelHandle 0) (idle_host 0))))
            = fired (idle_host 0) @ [(now (idle_host 0) + 500, 0)]"
    by blast+
  then have "fired (ticks run_callback (Suc 3) (snd (createInterval (CancelHandle 0) (idle_host 0))))
      = fired (idle_host 0) @ [(now (idle_host 0) + 500, 0)]"
    by blast
  moreover have "Suc 3 = 4" by simp
  ultimately have "fired (ticks run_callback 4 (snd (createInterval (CancelHandle 0) (idle_host 0))))
      = fired (idle_host 0) @ [(now (idle_host 0) + 500, 0)]"
    by (simp only:)
  then have c: "fired (ticks run_callback 4 (snd (createInterval (CancelHandle 0) (idle_host 0))))
      = [(500, 0)]"
    using e by simp
  from q e a b c show ?thesis by simp
qed

text \<open>
  \<^bold>\<open>C6.\<close> Calling the cancel handle twice is the same as calling it once, and calling it
  when no timer of its interval is pending changes nothing. Once it has been called, no
  timer of its interval is pending and its callback is never called again, however long
  the event loop runs; this holds after any number of firings of an interval started on an
  idle host, and a cancel before the first 500ms are over leaves the callback with no call
  at all. \<^verbatim>\<open>handleMouseUp\<close> calls the stored handle and clears it: doing it twice is doing it
  once, and with nothing stored it does nothing.
\<close>

theorem cancel_stops:
  "cancel k (cancel k w) = cancel k w
   \<and> (owns k w \<and> pending k w = [] \<longrightarrow> cancel k w = w)
   \<and> (owns k w \<and> quiet run \<longrightarrow>
        (\<forall>n. pending k (ticks run n (cancel k w)) = []
            \<and> calls_of k (ticks run n (cancel k w)) = calls_of k w))
   \<and> (quiet run \<and> queue w = [] \<longrightarrow>
        (\<forall>m n. queue (cancel (intervals w) (ticks run m (snd (createInterval c w)))) = []
            \<and> fired (ticks run n (cancel (intervals w) (ticks run m (snd (createInterval c w))))) =
                fired (ticks run m (snd (createInterval c w)))))
   \<and> (queue w = [] \<and> t < 500 \<longrightarrow>
        (\<forall>n. fired (ticks run n (cancel (intervals w) ((snd (createInterval c w))\<lparr>now := now w + t\<rparr>)))
              = fired w))
   \<and> handleMouseUp (handleMouseUp cw) = handleMouseUp cw
   \<and> (cancelRepeater (user cw) = None \<longrightarrow> handleMouseUp cw = cw)"
proof -
  have a: "owns k w \<and> quiet run \<longrightarrow>
        (\<forall>n. pending k (ticks run n (cancel k w)) = []
            \<and> calls_of k (ticks run n (cancel k w)) = calls_of k w)"
  proof (intro impI allI)
    fix n
    assume h: "owns k w \<and> quiet run"
    then have "pending k (cancel k w) = []" by (simp add: cancel_pending)
    from no_pending_ticks [OF _ this, of run n] h
    show "pending k (ticks run n (cancel k w)) = []
        \<and> calls_of k (ticks run n (cancel k w)) = calls_of k w"
      by (simp add: cancel_calls)
  qed
  have b: "quiet run \<and> queue w = [] \<longrightarrow>
        (\<forall>m n. queue (cancel (intervals w) (ticks run m (snd (createInterval c w)))) = []
            \<and> fired (ticks run n (cancel (intervals w) (ticks run m (snd (createInterval c w))))) =
                fired (ticks run m (snd (createInterval c w))))"
    using cancel_after_firings [where run = run and w = w and c = c and run' = run] by blast
  have c: "queue w = [] \<and> t < 500 \<longrightarrow>
        (\<forall>n. fired (ticks run n (cancel (intervals w) ((snd (createInterval c w))\<lparr>now := now w + t\<rparr>)))
              = fired w)"
    using start_then_cancel [where w = w and c = c and t = "now w + t"] by (simp add: ticks_empty)
  show ?thesis
    using a b c cancel_idem [of k w] cancel_idle [of k w]
      handleMouseUp_idem [of cw] handleMouseUp_idle [of cw]
    by blast
qed

theorem cancel_stops_witness:
  "queue (idle_host 0) = [] \<and> (100::nat) < 500
   \<and> fired (ticks run_callback 5
        (cancel 0 ((snd (createInterval Idle (idle_host 0)))\<lparr>now := 100\<rparr>))) = []
   \<and> cancelRepeater (user (mount defaultProps)) = None
   \<and> handleMouseUp (mount defaultProps) = mount defaultProps"
proof -
  have e: "queue (idle_host 0) = [] \<and> intervals (idle_host 0) = 0 \<and> now (idle_host 0) = 0
      \<and> fired (idle_host 0) = []"
    by (simp add: idle_host_def)
  have m: "cancelRepeater (user (mount defaultProps)) = None"
    by (simp add: mount_def)
  show ?thesis
    using e m
      cancel_stops [of 0 "idle_host 0" run_callback Idle 100 "mount defaultProps"]
    by simp
qed

text \<open>
  \<^bold>\<open>C10.\<close> Whatever happens to a mounted component (presses, releases, timers firing,
  time passing, new props), at most one timer is pending: none while no cancel handle is
  stored, and exactly the one of the stored handle's interval otherwise.
  \<^verbatim>\<open>handleMouseDown\<close> creates no interval while a handle is stored, and \<^verbatim>\<open>handleMouseUp\<close>
  on an editable widget clears both the pending timer and the stored handle.
\<close>

theorem single_timer_invariant:
  "single_timer (run_events es (mount p))
   \<and> length (queue (run_events es (mount p))) \<le> 1
   \<and> (cancelRepeater (user w) \<noteq> None \<and> handleMouseDown d w = Inr w' \<longrightarrow> intervals w' = intervals w)
   \<and> (single_timer w \<and> editable (props (user w)) \<longrightarrow>
        queue (handleMouseUp w) = [] \<and> cancelRepeater (user (handleMouseUp w)) = None)"
proof -
  have "single_timer (run_events es (mount p))"
    using single_timer_run [OF single_timer_mount] .
  then show ?thesis
    using single_timer_length [of "run_events es (mount p)"]
      no_second_interval [of w d w'] handleMouseUp_stops [of w]
    by blast
qed

theorem single_timer_invariant_witness:
  "cancelRepeater (user held) \<noteq> None
   \<and> handleMouseDown UP held = Inr (handleChange (Num (Fin 1)) held)
   \<and> intervals (handleChange (Num (Fin 1)) held) = intervals held
   \<and> single_timer held \<and> editable (props (user held))
   \<and> queue (handleMouseUp held) = []"
proof -
  have h: "handleMouseDown UP held = Inr (handleChange (Num (Fin 1)) held)"
    using held_eq
    by (simp add: handleMouseDown_def increment_def step_def handleChange_def
        defaultProps_def Let_def js_or_def js_add_def to_double_1 clamp_def
        Math_min_def Math_max_def)
  have s: "single_timer held"
    unfolding held_def by (rule single_timer_repeat [OF single_timer_mount])
  have e: "editable (props (user held))"
    using held_eq by (simp add: defaultProps_def)
  show ?thesis
    using h s e held_eq
      single_timer_invariant [of "[]" defaultProps held UP "handleChange (Num (Fin 1)) held"]
    by simp
qed



end
